theory Spec2Isabelle
  imports Complex_Main "HOL-Library.Word" "HOL-Library.Multiset"
begin

unbundle bit_operations_syntax

section \<open>Strings\<close>

text \<open>
  Strings are lists of characters. The helpers below are the string methods that the
  sources call: \<open>slice\<close> with two indices (which \<open>substring\<close> equals on the indices
  used), \<open>slice\<close> with one index, \<open>padStart\<close>, and \<open>toString(16)\<close> on a natural
  number.
\<close>

definition slice :: "nat \<Rightarrow> nat \<Rightarrow> 'a list \<Rightarrow> 'a list" where
  "slice a b s = take (b - a) (drop a s)"

definition sliceFrom :: "nat \<Rightarrow> 'a list \<Rightarrow> 'a list" where
  "sliceFrom a s = drop a s"

definition padStart :: "nat \<Rightarrow> char \<Rightarrow> string \<Rightarrow> string" where
  "padStart n c s = replicate (n - length s) c @ s"

definition hexDigit :: "nat \<Rightarrow> char" where
  "hexDigit d = ''0123456789abcdef'' ! d"

function natToString16 :: "nat \<Rightarrow> string" where
  "natToString16 n =
     (if n < 16 then [hexDigit n] else natToString16 (n div 16) @ [hexDigit (n mod 16)])"
  by pat_completeness auto
termination
  by (relation "measure id") auto

declare natToString16.simps [simp del]

section \<open>Device utilities: \<open>generateId\<close>\<close>

text \<open>
  \<open>generateId\<close> reads the global \<open>crypto\<close> object. The model takes it as an
  argument: \<open>None\<close> when the global is undefined; otherwise a record of the two
  members the function touches. \<open>randomUUID\<close> holds the string the native function
  would return (\<open>None\<close> when the member is not a function), \<open>getRandomValues\<close> the
  byte the native function stores at each index of the array it is given
  (\<open>None\<close> when the member is missing).
\<close>

datatype js_error = ReferenceError | TypeError

record crypto =
  randomUUID :: "string option"
  getRandomValues :: "(nat \<Rightarrow> 8 word) option"

definition byteToHex :: "8 word \<Rightarrow> string" where
  "byteToHex b = padStart 2 CHR ''0'' (natToString16 (unat b))"

definition generateId :: "crypto option \<Rightarrow> js_error + string" where
  "generateId env =
     (case (case env of None \<Rightarrow> None | Some c \<Rightarrow> randomUUID c) of
        Some uuid \<Rightarrow> Inr uuid
      | None \<Rightarrow>
         (case env of
            None \<Rightarrow> Inl ReferenceError
          | Some c \<Rightarrow>
             (case getRandomValues c of
                None \<Rightarrow> Inl TypeError
              | Some rnd \<Rightarrow>
                 (let bytes = map rnd [0..<16];
                      bytes = bytes[6 := ((bytes ! 6) AND 0x0f) OR 0x40];
                      bytes = bytes[8 := ((bytes ! 8) AND 0x3f) OR 0x80];
                      hex = concat (map byteToHex bytes)
                  in Inr (slice 0 8 hex @ ''-'' @ slice 8 12 hex @ ''-'' @ slice 12 16 hex
                          @ ''-'' @ slice 16 20 hex @ ''-'' @ sliceFrom 20 hex)))))"

text \<open>The layout of a version-4 UUID: 8-4-4-4-12 lowercase hex digits.\<close>

definition isLowerHex :: "char \<Rightarrow> bool" where
  "isLowerHex c = (c \<in> set ''0123456789abcdef'')"

definition isUuidV4 :: "string \<Rightarrow> bool" where
  "isUuidV4 s =
     (length s = 36
      \<and> list_all (\<lambda>i. if i \<in> {8, 13, 18, 23} then s ! i = CHR ''-'' else isLowerHex (s ! i))
            [0..<36]
      \<and> s ! 14 = CHR ''4''
      \<and> s ! 19 \<in> set ''89ab'')"

section \<open>Numbers\<close>

text \<open>
  A number of the host language is an IEEE double: a finite value, one of the two
  infinities, or NaN. A finite value is the rational it denotes. Addition,
  multiplication and division compute the exact result and round it to the nearest
  double, a tie going to the even significand; a result of magnitude \<open>2 ^ 1024\<close> or
  more becomes an infinity. Negation, the absolute value, the remainder and the
  rounding functions \<open>Math.floor\<close>, \<open>Math.ceil\<close> and \<open>Math.round\<close> are exact on doubles.
  A decimal literal denotes the nearest double. The sign of zero is not modelled:
  division of a nonzero number by zero gives the infinity of the dividend's sign.
\<close>

text \<open>
  The exponent of a nonzero rational \<open>x\<close> is the integer \<open>e\<close> with
  \<open>2 ^ e \<le> |x| < 2 ^ (e + 1)\<close>, found by halving or doubling.
\<close>

function expoUp :: "rat \<Rightarrow> int" where
  "expoUp x = (if x < 2 then 0 else 1 + expoUp (x / 2))"
  by pat_completeness auto
termination
proof (relation "measure (\<lambda>x. nat \<lfloor>x\<rfloor>)")
  show "wf (measure (\<lambda>x :: rat. nat \<lfloor>x\<rfloor>))" by simp
next
  fix x :: rat
  assume "\<not> x < 2"
  then have "x / 2 \<le> x - 1" by simp
  then have "\<lfloor>x / 2\<rfloor> \<le> \<lfloor>x - 1\<rfloor>" by (rule floor_mono)
  moreover have "1 \<le> \<lfloor>x\<rfloor>" using \<open>\<not> x < 2\<close> by (simp add: le_floor_iff)
  ultimately show "(x / 2, x) \<in> measure (\<lambda>x. nat \<lfloor>x\<rfloor>)" by simp
qed

declare expoUp.simps [simp del]

function expoDown :: "rat \<Rightarrow> int" where
  "expoDown x = (if x \<le> 0 \<or> 1 \<le> x then 0 else expoDown (2 * x) - 1)"
  by pat_completeness auto
termination
proof (relation "measure (\<lambda>x. nat \<lceil>1 / x\<rceil>)")
  show "wf (measure (\<lambda>x :: rat. nat \<lceil>1 / x\<rceil>))" by simp
next
  fix x :: rat
  assume "\<not> (x \<le> 0 \<or> 1 \<le> x)"
  then have x: "0 < x" "x < 1" by simp_all
  then have "1 < 1 / x" by simp
  then have c: "2 \<le> \<lceil>1 / x\<rceil>" by (simp add: le_ceiling_iff)
  have "1 / x \<le> of_int \<lceil>1 / x\<rceil>" by (rule le_of_int_ceiling)
  then have "1 / (2 * x) \<le> of_int \<lceil>1 / x\<rceil> / 2" by simp
  also have "\<dots> \<le> of_int (\<lceil>1 / x\<rceil> - 1)" using c by simp
  finally have "\<lceil>1 / (2 * x)\<rceil> \<le> \<lceil>1 / x\<rceil> - 1" by (simp only: ceiling_le_iff)
  with c x show "(2 * x, x) \<in> measure (\<lambda>x. nat \<lceil>1 / x\<rceil>)" by simp
qed

declare expoDown.simps [simp del]

definition exponent :: "rat \<Rightarrow> int" where
  "exponent x = (if 1 \<le> \<bar>x\<bar> then expoUp \<bar>x\<bar> else expoDown \<bar>x\<bar>)"

text \<open>Rounding to the nearest integer, a tie going to the even one.\<close>

definition roundHalfEven :: "rat \<Rightarrow> int" where
  "roundHalfEven y =
     (let f = \<lfloor>y\<rfloor>; d = y - of_int f
      in if d < 1 / 2 then f else if 1 / 2 < d then f + 1 else if even f then f else f + 1)"

text \<open>
  The unit in the last place of a double near \<open>x\<close> is \<open>2 ^ (e - 52)\<close> for the exponent \<open>e\<close>
  of \<open>x\<close>, and \<open>2 ^ (- 1074)\<close> in the subnormal range. The nearest double to a rational is
  the nearest multiple of that unit.
\<close>

definition ulp :: "rat \<Rightarrow> rat" where
  "ulp x = 2 powi (max (exponent x) (- 1022) - 52)"

definition roundToDouble :: "rat \<Rightarrow> rat" where
  "roundToDouble x = (if x = 0 then 0 else of_int (roundHalfEven (x / ulp x)) * ulp x)"

datatype jsnum = Fin rat | PInf | NInf | NaN

definition toDouble :: "rat \<Rightarrow> jsnum" where
  "toDouble x =
     (let y = roundToDouble x
      in if 2 ^ 1024 \<le> y then PInf else if y \<le> - (2 ^ 1024) then NInf else Fin y)"

fun jneg :: "jsnum \<Rightarrow> jsnum" where
  "jneg (Fin a) = Fin (- a)"
| "jneg PInf = NInf"
| "jneg NInf = PInf"
| "jneg NaN = NaN"

fun jsgn :: "jsnum \<Rightarrow> int" where
  "jsgn (Fin a) = (if a < 0 then - 1 else if a = 0 then 0 else 1)"
| "jsgn PInf = 1"
| "jsgn NInf = - 1"
| "jsgn NaN = 0"

fun jadd :: "jsnum \<Rightarrow> jsnum \<Rightarrow> jsnum" where
  "jadd NaN y = NaN"
| "jadd x NaN = NaN"
| "jadd (Fin a) (Fin b) = toDouble (a + b)"
| "jadd (Fin a) y = y"
| "jadd x (Fin b) = x"
| "jadd PInf PInf = PInf"
| "jadd NInf NInf = NInf"
| "jadd PInf NInf = NaN"
| "jadd NInf PInf = NaN"

definition jsub :: "jsnum \<Rightarrow> jsnum \<Rightarrow> jsnum" where
  "jsub x y = jadd x (jneg y)"

definition ofSign :: "int \<Rightarrow> jsnum" where
  "ofSign k = (if k = 0 then NaN else if 0 < k then PInf else NInf)"

fun jmul :: "jsnum \<Rightarrow> jsnum \<Rightarrow> jsnum" where
  "jmul NaN y = NaN"
| "jmul x NaN = NaN"
| "jmul (Fin a) (Fin b) = toDouble (a * b)"
| "jmul x y = ofSign (jsgn x * jsgn y)"

fun jdiv :: "jsnum \<Rightarrow> jsnum \<Rightarrow> jsnum" where
  "jdiv NaN y = NaN"
| "jdiv x NaN = NaN"
| "jdiv (Fin a) (Fin b) = (if b = 0 then ofSign (jsgn (Fin a)) else toDouble (a / b))"
| "jdiv (Fin a) y = Fin 0"
| "jdiv x (Fin b) = ofSign (jsgn x * (if b < 0 then - 1 else 1))"
| "jdiv x y = NaN"

fun jlt :: "jsnum \<Rightarrow> jsnum \<Rightarrow> bool" where
  "jlt NaN y = False"
| "jlt x NaN = False"
| "jlt (Fin a) (Fin b) = (a < b)"
| "jlt x PInf = (x \<noteq> PInf)"
| "jlt NInf y = (y \<noteq> NInf)"
| "jlt x y = False"

definition jgt :: "jsnum \<Rightarrow> jsnum \<Rightarrow> bool" where
  "jgt x y = jlt y x"

text \<open>Strict equality \<open>===\<close> on numbers: NaN equals nothing.\<close>

definition jeq :: "jsnum \<Rightarrow> jsnum \<Rightarrow> bool" where
  "jeq x y = (x \<noteq> NaN \<and> x = y)"

definition Math_max :: "jsnum \<Rightarrow> jsnum \<Rightarrow> jsnum" where
  "Math_max x y = (if x = NaN \<or> y = NaN then NaN else if jlt x y then y else x)"

definition Math_min :: "jsnum \<Rightarrow> jsnum \<Rightarrow> jsnum" where
  "Math_min x y = (if x = NaN \<or> y = NaN then NaN else if jlt y x then y else x)"

fun Math_abs :: "jsnum \<Rightarrow> jsnum" where
  "Math_abs (Fin a) = Fin \<bar>a\<bar>"
| "Math_abs NaN = NaN"
| "Math_abs x = PInf"

fun Math_floor :: "jsnum \<Rightarrow> jsnum" where
  "Math_floor (Fin a) = Fin (of_int \<lfloor>a\<rfloor>)"
| "Math_floor x = x"

fun Math_ceil :: "jsnum \<Rightarrow> jsnum" where
  "Math_ceil (Fin a) = Fin (of_int \<lceil>a\<rceil>)"
| "Math_ceil x = x"

text \<open>\<open>Math.round\<close> rounds to the nearest integer, a half towards plus infinity.\<close>

fun Math_round :: "jsnum \<Rightarrow> jsnum" where
  "Math_round (Fin a) = Fin (of_int \<lfloor>a + 1 / 2\<rfloor>)"
| "Math_round x = x"

text \<open>The remainder \<open>%\<close> takes the sign of the dividend.\<close>

fun jrem :: "jsnum \<Rightarrow> jsnum \<Rightarrow> jsnum" where
  "jrem (Fin a) (Fin b) =
     (if b = 0 then NaN
      else Fin (a - b * of_int (if 0 \<le> a / b then \<lfloor>a / b\<rfloor> else \<lceil>a / b\<rceil>)))"
| "jrem (Fin a) PInf = Fin a"
| "jrem (Fin a) NInf = Fin a"
| "jrem x y = NaN"

text \<open>
  \<open>toString(16)\<close> of a number. The sources apply it to results of \<open>Math.round\<close> only,
  so a finite argument is integral; its integer part is printed.
\<close>

fun toString16 :: "jsnum \<Rightarrow> string" where
  "toString16 NaN = ''NaN''"
| "toString16 PInf = ''Infinity''"
| "toString16 NInf = ''-Infinity''"
| "toString16 (Fin a) =
     (if a < 0 then ''-'' @ natToString16 (nat \<lfloor>- a\<rfloor>) else natToString16 (nat \<lfloor>a\<rfloor>))"

text \<open>
  \<open>parseInt(s, 16)\<close>: leading white space is skipped, then an optional sign, then an
  optional \<open>0x\<close> prefix; the longest run of hex digits that follows is the value,
  rounded to the nearest double, and NaN results when that run is empty.
\<close>

definition isWhiteSpace :: "char \<Rightarrow> bool" where
  "isWhiteSpace c = (of_char c \<in> {9, 10, 11, 12, 13, 32, 160 :: nat})"

definition hexValue :: "char \<Rightarrow> nat option" where
  "hexValue c =
     (let k = (of_char c :: nat) in
      if 48 \<le> k \<and> k \<le> 57 then Some (k - 48)
      else if 97 \<le> k \<and> k \<le> 102 then Some (k - 87)
      else if 65 \<le> k \<and> k \<le> 70 then Some (k - 55)
      else None)"

fun parseDigits :: "nat \<Rightarrow> string \<Rightarrow> nat" where
  "parseDigits acc [] = acc"
| "parseDigits acc (c # cs) =
     (case hexValue c of None \<Rightarrow> acc | Some d \<Rightarrow> parseDigits (16 * acc + d) cs)"

definition stripSign :: "string \<Rightarrow> bool \<times> string" where
  "stripSign s =
     (case s of
        [] \<Rightarrow> (False, [])
      | c # r \<Rightarrow> if c = CHR ''-'' then (True, r) else if c = CHR ''+'' then (False, r)
                 else (False, s))"

definition stripPrefix0x :: "string \<Rightarrow> string" where
  "stripPrefix0x s =
     (case s of
        a # b # r \<Rightarrow> if a = CHR ''0'' \<and> (b = CHR ''x'' \<or> b = CHR ''X'') then r else s
      | _ \<Rightarrow> s)"

definition parseInt16 :: "string \<Rightarrow> jsnum" where
  "parseInt16 s =
     (let (neg, s') = stripSign (dropWhile isWhiteSpace s);
          ds = stripPrefix0x s'
      in case ds of
           [] \<Rightarrow> NaN
         | c # _ \<Rightarrow>
             if hexValue c = None then NaN
             else toDouble ((if neg then - 1 else 1) * of_nat (parseDigits 0 ds)))"

section \<open>Colour utilities, first revision (HSL)\<close>

datatype hsl = HSL (hue: jsnum) (sat: jsnum) (lum: jsnum)

definition hexToHsl :: "string \<Rightarrow> hsl" where
  "hexToHsl hex =
     (let r = jdiv (parseInt16 (slice 1 3 hex)) (Fin 255);
          g = jdiv (parseInt16 (slice 3 5 hex)) (Fin 255);
          b = jdiv (parseInt16 (slice 5 7 hex)) (Fin 255);
          mx = Math_max (Math_max r g) b;
          mn = Math_min (Math_min r g) b;
          l = jdiv (jadd mx mn) (Fin 2);
          d = jsub mx mn;
          s = (if jeq mx mn then Fin 0
               else if jgt l (Fin (1 / 2)) then jdiv d (jsub (jsub (Fin 2) mx) mn)
               else jdiv d (jadd mx mn));
          h = (if jeq mx mn then Fin 0
               else if jeq mx r
                 then jdiv (jadd (jdiv (jsub g b) d) (if jlt g b then Fin 6 else Fin 0)) (Fin 6)
               else if jeq mx g then jdiv (jadd (jdiv (jsub b r) d) (Fin 2)) (Fin 6)
               else if jeq mx b then jdiv (jadd (jdiv (jsub r g) d) (Fin 4)) (Fin 6)
               else Fin 0)
      in HSL (jmul h (Fin 360)) (jmul s (Fin 100)) (jmul l (Fin 100)))"

definition toHex :: "jsnum \<Rightarrow> jsnum \<Rightarrow> string" where
  "toHex m n = padStart 2 CHR ''0'' (toString16 (Math_round (jmul (jadd n m) (Fin 255))))"

definition hslToHex :: "jsnum \<Rightarrow> jsnum \<Rightarrow> jsnum \<Rightarrow> string" where
  "hslToHex h s0 l0 =
     (let s = jdiv s0 (Fin 100);
          l = jdiv l0 (Fin 100);
          c = jmul (jsub (Fin 1) (Math_abs (jsub (jmul (Fin 2) l) (Fin 1)))) s;
          x = jmul c (jsub (Fin 1) (Math_abs (jsub (jrem (jdiv h (Fin 60)) (Fin 2)) (Fin 1))));
          m = jsub l (jdiv c (Fin 2));
          (r, g, b) =
            (if jlt h (Fin 60) then (c, x, Fin 0)
             else if jlt h (Fin 120) then (x, c, Fin 0)
             else if jlt h (Fin 180) then (Fin 0, c, x)
             else if jlt h (Fin 240) then (Fin 0, x, c)
             else if jlt h (Fin 300) then (x, Fin 0, c)
             else (c, Fin 0, x))
      in ''#'' @ toHex m r @ toHex m g @ toHex m b)"

definition darkenColor_amount :: "string \<Rightarrow> jsnum \<Rightarrow> string" where
  "darkenColor_amount hex amount =
     (let c = hexToHsl hex
      in hslToHex (hue c) (sat c) (Math_max (Fin 0) (jmul (lum c) (jsub (Fin 1) amount))))"

definition lightenColor_amount :: "string \<Rightarrow> jsnum \<Rightarrow> string" where
  "lightenColor_amount hex amount =
     (let c = hexToHsl hex
      in hslToHex (hue c) (sat c) (Math_min (Fin 100) (jmul (lum c) (jadd (Fin 1) amount))))"

section \<open>Colour utilities, second revision (RGB)\<close>

definition channelHex :: "jsnum \<Rightarrow> string" where
  "channelHex n = padStart 2 CHR ''0'' (toString16 n)"

definition darkenColor_percent :: "string \<Rightarrow> jsnum \<Rightarrow> string" where
  "darkenColor_percent hex percent =
     (let color = remove1 CHR ''#'' hex;
          r = parseInt16 (slice 0 2 color);
          g = parseInt16 (slice 2 4 color);
          b = parseInt16 (slice 4 6 color);
          factor = jsub (Fin 1) (jdiv percent (Fin 100));
          newR = Math_round (jmul r factor);
          newG = Math_round (jmul g factor);
          newB = Math_round (jmul b factor)
      in ''#'' @ channelHex newR @ channelHex newG @ channelHex newB)"

definition lightenColor_percent :: "string \<Rightarrow> jsnum \<Rightarrow> string" where
  "lightenColor_percent hex percent =
     (let color = remove1 CHR ''#'' hex;
          r = parseInt16 (slice 0 2 color);
          g = parseInt16 (slice 2 4 color);
          b = parseInt16 (slice 4 6 color);
          factor = jdiv percent (Fin 100);
          newR = Math_round (jadd r (jmul (jsub (Fin 255) r) factor));
          newG = Math_round (jadd g (jmul (jsub (Fin 255) g) factor));
          newB = Math_round (jadd b (jmul (jsub (Fin 255) b) factor))
      in ''#'' @ channelHex newR @ channelHex newG @ channelHex newB)"

text \<open>
  A well-formed colour is \<open>#\<close> followed by six hex digits. \<open>channelValue\<close> is the number
  that two hex digits denote, \<open>hex2\<close> the two lowercase hex digits of a number below
  256, \<open>roundHalfUp\<close> the nearest natural number to a non-negative rational.
\<close>

definition isHexColour :: "string \<Rightarrow> bool" where
  "isHexColour s =
     (length s = 7 \<and> s ! 0 = CHR ''#'' \<and> list_all (\<lambda>c. hexValue c \<noteq> None) (tl s))"

definition digitValue :: "char \<Rightarrow> nat" where
  "digitValue c = (case hexValue c of None \<Rightarrow> 0 | Some d \<Rightarrow> d)"

definition channelValue :: "char \<Rightarrow> char \<Rightarrow> nat" where
  "channelValue a b = 16 * digitValue a + digitValue b"

definition hex2 :: "nat \<Rightarrow> string" where
  "hex2 n = [hexDigit (n div 16), hexDigit (n mod 16)]"

definition roundHalfUp :: "rat \<Rightarrow> nat" where
  "roundHalfUp q = nat \<lfloor>q + 1 / 2\<rfloor>"

section \<open>Isometric export, first revision: the drawing order\<close>

text \<open>
  The first revision draws the fixed list \<open>sampleDevices\<close>. Its \<open>createDevice\<close> builds
  one group per device, with corner points that involve the sine and cosine of 30
  degrees; the drawing order does not depend on them, so \<open>createDevice\<close> is an argument
  here. \<open>generateSingleView\<close> and \<open>generateDualView\<close> append, after the rack frame, the
  groups of the devices sorted by descending position.
\<close>

record POCDevice =
  name :: string
  uHeight :: rat
  uPosition :: rat
  color :: string
  isFullDepth :: bool

definition sampleDevices :: "POCDevice list" where
  "sampleDevices =
     [\<lparr>name = ''UPS'', uHeight = 2, uPosition = 1, color = ''#50fa7b'', isFullDepth = True\<rparr>,
      \<lparr>name = ''Patch Panel'', uHeight = 1, uPosition = 3, color = ''#8be9fd'',
        isFullDepth = False\<rparr>,
      \<lparr>name = ''Network Switch'', uHeight = 1, uPosition = 4, color = ''#ff79c6'',
        isFullDepth = False\<rparr>,
      \<lparr>name = ''Server 1'', uHeight = 2, uPosition = 5, color = ''#bd93f9'',
        isFullDepth = True\<rparr>,
      \<lparr>name = ''NAS'', uHeight = 4, uPosition = 7, color = ''#ffb86c'', isFullDepth = True\<rparr>,
      \<lparr>name = ''Blank Panel'', uHeight = 2, uPosition = 11, color = ''#44475a'',
        isFullDepth = False\<rparr>]"

definition sortedSampleDevices :: "POCDevice list" where
  "sortedSampleDevices = sort_key (\<lambda>d. - uPosition d) sampleDevices"

definition generateSingleView_devices :: "(POCDevice \<Rightarrow> 'e) \<Rightarrow> 'e list" where
  "generateSingleView_devices createDevice = map createDevice sortedSampleDevices"

section \<open>Port layout (research notes, recommended algorithm)\<close>

text \<open>
  The interface type and \<open>groupInterfacesByType\<close> are not defined where the algorithm
  is given: interfaces are values of a type parameter and the grouping function is an
  argument. The rack width class is one of four values and is not read by the body.
\<close>

definition PORT_RADIUS_DEFAULT :: jsnum where "PORT_RADIUS_DEFAULT = Fin 3"
definition PORT_RADIUS_MIN :: jsnum where "PORT_RADIUS_MIN = Fin 2"
definition PORT_SPACING_DEFAULT :: jsnum where "PORT_SPACING_DEFAULT = Fin 8"
definition PORT_SPACING_MIN :: jsnum where "PORT_SPACING_MIN = Fin 2"
definition PORT_Y_OFFSET :: jsnum where "PORT_Y_OFFSET = Fin 8"

datatype RackWidth = W10 | W19 | W21 | W23

datatype 'i PortPosition = PortPosition 'i jsnum jsnum jsnum

datatype ('i, 'g) PortLayoutResult =
    Hidden
  | Grouped 'g
  | Individual jsnum jsnum jsnum jsnum "'i PortPosition list"

definition calculatePositions ::
  "'i list \<Rightarrow> jsnum \<Rightarrow> jsnum \<Rightarrow> jsnum \<Rightarrow> jsnum \<Rightarrow> 'i PortPosition list" where
  "calculatePositions interfaces rows portsPerRow spacing radius =
     map (\<lambda>(iface, index).
            let row = Math_floor (jdiv (Fin (of_nat index)) portsPerRow);
                col = jrem (Fin (of_nat index)) portsPerRow
            in PortPosition iface
                 (jadd (jadd spacing (jmul col (jadd (jmul radius (Fin 2)) spacing))) radius)
                 (jadd (jmul row (jadd (jmul radius (Fin 2)) (Fin 2))) radius)
                 radius)
         (zip interfaces [0..<length interfaces])"

definition calculatePortLayout ::
  "('i list \<Rightarrow> 'g) \<Rightarrow> jsnum \<Rightarrow> jsnum \<Rightarrow> 'i list \<Rightarrow> jsnum \<Rightarrow> RackWidth
     \<Rightarrow> ('i, 'g) PortLayoutResult" where
  "calculatePortLayout groupInterfacesByType deviceWidth deviceHeight interfaces zoom rackWidth =
     (let portCount = Fin (of_nat (length interfaces)) in
      if jlt zoom (Fin (1 / 2)) then Hidden
      else
        let availableHeight = jsub deviceHeight PORT_Y_OFFSET;
            maxRows = Math_floor (jdiv availableHeight (jadd (jmul PORT_RADIUS_DEFAULT (Fin 2)) (Fin 2)));
            portsPerRow = Math_ceil (jdiv portCount maxRows);
            requiredWidth = jmul portsPerRow (jadd (jmul PORT_RADIUS_DEFAULT (Fin 2)) PORT_SPACING_MIN)
        in if jgt requiredWidth deviceWidth \<and> jlt zoom (Fin (3 / 2))
           then Grouped (groupInterfacesByType interfaces)
           else
             let optimalRows = Math_min maxRows
                                 (Math_ceil (jdiv portCount (Math_floor (jdiv deviceWidth (Fin 8)))));
                 portsPerRowFinal = Math_ceil (jdiv portCount optimalRows);
                 portRadius = PORT_RADIUS_DEFAULT;
                 spacing = jdiv (jsub deviceWidth (jmul (jmul portsPerRowFinal portRadius) (Fin 2)))
                                (jadd portsPerRowFinal (Fin 1));
                 (portRadius, spacing) =
                   (if jlt spacing PORT_SPACING_MIN
                    then (PORT_RADIUS_MIN,
                          jdiv (jsub deviceWidth (jmul (jmul portsPerRowFinal PORT_RADIUS_MIN) (Fin 2)))
                               (jadd portsPerRowFinal (Fin 1)))
                    else (portRadius, spacing))
             in Individual optimalRows portsPerRowFinal portRadius spacing
                  (calculatePositions interfaces optimalRows portsPerRowFinal spacing portRadius))"

section \<open>Isometric export: rendering a rack (second revision)\<close>

text \<open>
  Rack units and pixel offsets are finite numbers (whole or half units), modelled as
  rationals. An SVG element is its tag, its attributes in the order they are set, its
  text content and its children. A numeric attribute holds the number that the source
  passes through \<open>String\<close>; a \<open>points\<close> attribute holds the list of corner points.
\<close>

definition U_HEIGHT :: rat where "U_HEIGHT = 22"
definition RACK_WIDTH :: rat where "RACK_WIDTH = 220"
definition RAIL_WIDTH :: rat where "RAIL_WIDTH = 17"
definition RACK_PADDING :: rat where "RACK_PADDING = 4"
definition FULL_DEPTH_PX :: rat where "FULL_DEPTH_PX = 24"
definition HALF_DEPTH_PX :: rat where "HALF_DEPTH_PX = 12"
definition DARK_RACK_INTERIOR :: string where "DARK_RACK_INTERIOR = ''#2d2d2d''"
definition DARK_RACK_RAIL :: string where "DARK_RACK_RAIL = ''#404040''"
definition DARK_TEXT :: string where "DARK_TEXT = ''#ffffff''"

record Device =
  slug :: string
  model :: string
  category :: string
  colour :: string
  u_height :: rat
  is_full_depth :: bool

record PlacedDevice =
  device_type :: string
  position :: rat
  colour_override :: "string option"

record Rack =
  name :: string
  height :: rat
  devices :: "PlacedDevice list"

datatype attr = Num rat | Str string | Points "(rat \<times> rat) list" | Translate rat rat

datatype element = Element string "(string \<times> attr) list" string "element list"


fun children :: "element \<Rightarrow> element list" where
  "children (Element tag as txt cs) = cs"

definition interiorWidth :: rat where
  "interiorWidth = RACK_WIDTH - RAIL_WIDTH * 2"

text \<open>The constants of the loop body of \<open>renderRack\<close>, for one placed device.\<close>

definition deviceY :: "Rack \<Rightarrow> PlacedDevice \<Rightarrow> Device \<Rightarrow> rat" where
  "deviceY rack placedDevice device =
     (height rack - position placedDevice - u_height device + 1) * U_HEIGHT
       + RACK_PADDING + RAIL_WIDTH"

definition deviceHeight :: "Device \<Rightarrow> rat" where
  "deviceHeight device = u_height device * U_HEIGHT - 2"

definition deviceWidth :: rat where
  "deviceWidth = interiorWidth - 4"

definition deviceX :: rat where
  "deviceX = RAIL_WIDTH + 2"

definition deviceColor :: "PlacedDevice \<Rightarrow> Device \<Rightarrow> string" where
  "deviceColor placedDevice device =
     (case colour_override placedDevice of Some c \<Rightarrow> c | None \<Rightarrow> colour device)"

definition depthPx :: "Device \<Rightarrow> rat" where
  "depthPx device = (if is_full_depth device then FULL_DEPTH_PX else HALF_DEPTH_PX)"

definition sidePanel :: "Rack \<Rightarrow> PlacedDevice \<Rightarrow> Device \<Rightarrow> element" where
  "sidePanel rack placedDevice device =
     (let spX = deviceX + deviceWidth;
          spY = deviceY rack placedDevice device + 1;
          dp = depthPx device;
          dh = deviceHeight device
      in Element ''polygon''
           [(''points'', Points [(spX, spY), (spX + dp, spY), (spX + dp, spY + dh), (spX, spY + dh)]),
            (''fill'', Str (darkenColor_percent (deviceColor placedDevice device) (Fin 25)))]
           [] [])"

definition topPanel :: "Rack \<Rightarrow> PlacedDevice \<Rightarrow> Device \<Rightarrow> element" where
  "topPanel rack placedDevice device =
     (let spX = deviceX + deviceWidth;
          spY = deviceY rack placedDevice device + 1;
          dp = depthPx device
      in Element ''polygon''
           [(''points'', Points [(deviceX, spY), (spX, spY), (spX + dp, spY), (deviceX + dp, spY)]),
            (''fill'', Str (lightenColor_percent (deviceColor placedDevice device) (Fin 15)))]
           [] [])"

definition deviceRect :: "Rack \<Rightarrow> PlacedDevice \<Rightarrow> Device \<Rightarrow> element" where
  "deviceRect rack placedDevice device =
     Element ''rect''
       [(''x'', Num deviceX),
        (''y'', Num (deviceY rack placedDevice device + 1)),
        (''width'', Num deviceWidth),
        (''height'', Num (deviceHeight device)),
        (''fill'', Str (deviceColor placedDevice device)),
        (''rx'', Str ''2'')]
       [] []"

definition deviceElements :: "Rack \<Rightarrow> PlacedDevice \<Rightarrow> Device \<Rightarrow> element list" where
  "deviceElements rack placedDevice device =
     [sidePanel rack placedDevice device, topPanel rack placedDevice device,
      deviceRect rack placedDevice device]"

text \<open>
  The device loop: a placed device whose type is not in the catalogue is skipped
  (\<open>continue\<close>); every other one appends its side panel, top panel and front face.
\<close>

fun renderDevices :: "Rack \<Rightarrow> Device list \<Rightarrow> PlacedDevice list \<Rightarrow> element list" where
  "renderDevices rack catalogue [] = []"
| "renderDevices rack catalogue (placedDevice # rest) =
     (case find (\<lambda>d. slug d = device_type placedDevice) catalogue of
        None \<Rightarrow> renderDevices rack catalogue rest
      | Some device \<Rightarrow>
          deviceElements rack placedDevice device @ renderDevices rack catalogue rest)"

text \<open>
  \<open>[...rack.devices].sort((a, b) => b.position - a.position)\<close>: the array sort is
  stable, so the result is the stable sort by descending position.
\<close>

definition sortedDevices :: "Rack \<Rightarrow> PlacedDevice list" where
  "sortedDevices rack = sort_key (\<lambda>p. - position p) (devices rack)"

definition rackFrame :: "Rack \<Rightarrow> element list" where
  "rackFrame rack =
     (let rackHeight = height rack * U_HEIGHT;
          rsX = RACK_WIDTH;
          rsY = RACK_PADDING;
          rsH = rackHeight + RAIL_WIDTH * 2;
          tsY = RACK_PADDING
      in [Element ''polygon''
            [(''points'', Points [(rsX, rsY), (rsX + FULL_DEPTH_PX, rsY),
                                   (rsX + FULL_DEPTH_PX, rsY + rsH), (rsX, rsY + rsH)]),
             (''fill'', Str (darkenColor_percent DARK_RACK_RAIL (Fin 30)))] [] [],
          Element ''polygon''
            [(''points'', Points [(0, tsY), (RACK_WIDTH, tsY),
                                   (RACK_WIDTH + FULL_DEPTH_PX, tsY), (FULL_DEPTH_PX, tsY)]),
             (''fill'', Str (lightenColor_percent DARK_RACK_RAIL (Fin 15)))] [] [],
          Element ''rect''
            [(''x'', Num RAIL_WIDTH), (''y'', Num (RACK_PADDING + RAIL_WIDTH)),
             (''width'', Num interiorWidth), (''height'', Num rackHeight),
             (''fill'', Str DARK_RACK_INTERIOR)] [] [],
          Element ''rect''
            [(''x'', Num 0), (''y'', Num RACK_PADDING),
             (''width'', Num RACK_WIDTH), (''height'', Num RAIL_WIDTH),
             (''fill'', Str DARK_RACK_RAIL)] [] [],
          Element ''rect''
            [(''x'', Num 0), (''y'', Num (RACK_PADDING + RAIL_WIDTH + rackHeight)),
             (''width'', Num RACK_WIDTH), (''height'', Num RAIL_WIDTH),
             (''fill'', Str DARK_RACK_RAIL)] [] [],
          Element ''rect''
            [(''x'', Num 0), (''y'', Num RACK_PADDING),
             (''width'', Num RAIL_WIDTH), (''height'', Num (rackHeight + RAIL_WIDTH * 2)),
             (''fill'', Str DARK_RACK_RAIL)] [] [],
          Element ''rect''
            [(''x'', Num (RACK_WIDTH - RAIL_WIDTH)), (''y'', Num RACK_PADDING),
             (''width'', Num RAIL_WIDTH), (''height'', Num (rackHeight + RAIL_WIDTH * 2)),
             (''fill'', Str DARK_RACK_RAIL)] [] []])"

definition viewLabel :: "string \<Rightarrow> element" where
  "viewLabel label =
     Element ''text''
       [(''x'', Num (RACK_WIDTH / 2)), (''y'', Num (- 5)), (''fill'', Str DARK_TEXT),
        (''font-size'', Str ''11''), (''font-family'', Str ''system-ui, sans-serif''),
        (''text-anchor'', Str ''middle''), (''font-weight'', Str ''bold'')]
       label []"

text \<open>
  \<open>renderRack\<close> appends one group to its parent; the model returns that group.
\<close>

definition renderRack :: "Rack \<Rightarrow> Device list \<Rightarrow> rat \<Rightarrow> rat \<Rightarrow> string \<Rightarrow> element" where
  "renderRack rack catalogue xOffset yOffset label =
     Element ''g'' [(''transform'', Translate xOffset yOffset)] []
       (rackFrame rack @ renderDevices rack catalogue (sortedDevices rack) @ [viewLabel label])"

text \<open>
  The placed devices that \<open>renderRack\<close> draws, in the order in which it draws them:
  the sorted placements whose device type is in the catalogue.
\<close>

definition drawnDevices :: "Rack \<Rightarrow> Device list \<Rightarrow> (PlacedDevice \<times> Device) list" where
  "drawnDevices rack catalogue =
     List.map_filter
       (\<lambda>p. map_option (Pair p) (find (\<lambda>d. slug d = device_type p) catalogue))
       (sortedDevices rack)"

text \<open>The test data of the script.\<close>

definition testDevices :: "Device list" where
  "testDevices =
     [\<lparr>slug = ''udm-pro'', model = ''UDM Pro'', category = ''network'',
        colour = ''#3498db'', u_height = 1, is_full_depth = False\<rparr>,
      \<lparr>slug = ''usw-pro-48'', model = ''USW-Pro-48'', category = ''network'',
        colour = ''#3498db'', u_height = 1, is_full_depth = False\<rparr>,
      \<lparr>slug = ''poweredge-r730'', model = ''PowerEdge R730'', category = ''server'',
        colour = ''#27ae60'', u_height = 2, is_full_depth = True\<rparr>,
      \<lparr>slug = ''poweredge-r640'', model = ''PowerEdge R640'', category = ''server'',
        colour = ''#27ae60'', u_height = 1, is_full_depth = True\<rparr>,
      \<lparr>slug = ''synology-rs820'', model = ''RS820+'', category = ''storage'',
        colour = ''#9b59b6'', u_height = 1, is_full_depth = True\<rparr>,
      \<lparr>slug = ''synology-rs1221'', model = ''RS1221+'', category = ''storage'',
        colour = ''#9b59b6'', u_height = 2, is_full_depth = True\<rparr>,
      \<lparr>slug = ''cyberpower-or1500'', model = ''CyberPower OR1500'', category = ''power'',
        colour = ''#e74c3c'', u_height = 2, is_full_depth = True\<rparr>,
      \<lparr>slug = ''apc-smt1500rm'', model = ''APC SMT1500RM'', category = ''power'',
        colour = ''#e74c3c'', u_height = 2, is_full_depth = True\<rparr>,
      \<lparr>slug = ''patch-panel'', model = ''24-Port Patch Panel'', category = ''network'',
        colour = ''#3498db'', u_height = 1, is_full_depth = False\<rparr>,
      \<lparr>slug = ''blank-panel-1u'', model = ''1U Blank Panel'', category = ''blank'',
        colour = ''#7f8c8d'', u_height = 1, is_full_depth = False\<rparr>]"

definition testRack :: Rack where
  "testRack =
     \<lparr>name = ''HomeLab-01'', height = 24,
      devices =
        [\<lparr>device_type = ''cyberpower-or1500'', position = 1, colour_override = None\<rparr>,
         \<lparr>device_type = ''apc-smt1500rm'', position = 3, colour_override = None\<rparr>,
         \<lparr>device_type = ''synology-rs1221'', position = 5, colour_override = None\<rparr>,
         \<lparr>device_type = ''synology-rs820'', position = 7, colour_override = None\<rparr>,
         \<lparr>device_type = ''blank-panel-1u'', position = 8, colour_override = None\<rparr>,
         \<lparr>device_type = ''poweredge-r730'', position = 9, colour_override = None\<rparr>,
         \<lparr>device_type = ''poweredge-r640'', position = 11, colour_override = None\<rparr>,
         \<lparr>device_type = ''poweredge-r640'', position = 12, colour_override = None\<rparr>,
         \<lparr>device_type = ''blank-panel-1u'', position = 13, colour_override = None\<rparr>,
         \<lparr>device_type = ''patch-panel'', position = 14, colour_override = None\<rparr>,
         \<lparr>device_type = ''usw-pro-48'', position = 15, colour_override = None\<rparr>,
         \<lparr>device_type = ''usw-pro-48'', position = 16, colour_override = None\<rparr>,
         \<lparr>device_type = ''udm-pro'', position = 17, colour_override = None\<rparr>]\<rparr>"






section \<open>Device placement validator\<close>

text \<open>
  The sources hold no placement validator: the renderer, the port-layout notes and
  tests only. The validator of this section follows the specification's description.
\<close>

text \<open>
  Modelled from the spec: the faces of a placed device, \<open>front | rear | both\<close>.
\<close>

datatype face = Front | Rear | Both

text \<open>
  Modelled from the spec: a placement as \<open>validatePlacement\<close> reads it, that is a
  placed device (id, position, face) together with the height and the depth flag of its
  device type.
\<close>

record Placement =
  p_id :: string
  p_position :: rat
  p_height :: rat
  p_face :: face
  p_full_depth :: bool

text \<open>
  Modelled from the spec: the result of \<open>validatePlacement\<close>,
  \<open>Ok | Conflict(list of colliding PlacedDevice ids)\<close>.
\<close>

datatype validation = Ok | Conflict "string list"

text \<open>
  Modelled from the spec: the occupied unit range
  \<open>[position, position + deviceType.height - 1]\<close>, as its two bounds.
\<close>

definition occupiedRange :: "Placement \<Rightarrow> rat \<times> rat" where
  "occupiedRange p = (p_position p, p_position p + p_height p - 1)"

text \<open>
  Modelled from the spec: the effective face-occupancy set, "front-only, rear-only, or
  both when full-depth"; a half-depth device occupies its own face.
\<close>

definition faceOccupancy :: "Placement \<Rightarrow> face set" where
  "faceOccupancy p =
     (if p_full_depth p then {Front, Rear}
      else case p_face p of Front \<Rightarrow> {Front} | Rear \<Rightarrow> {Rear} | Both \<Rightarrow> {Front, Rear})"

text \<open>
  Modelled from the spec: whether two unit ranges intersect, computed from their bounds.
\<close>

definition rangesIntersect :: "rat \<times> rat \<Rightarrow> rat \<times> rat \<Rightarrow> bool" where
  "rangesIntersect a b = (max (fst a) (fst b) \<le> min (snd a) (snd b))"

text \<open>
  Modelled from the spec: "a conflict exists iff unit ranges intersect AND
  face-occupancy sets intersect".
\<close>

definition collides :: "Placement \<Rightarrow> Placement \<Rightarrow> bool" where
  "collides candidate existing =
     (rangesIntersect (occupiedRange candidate) (occupiedRange existing)
      \<and> faceOccupancy candidate \<inter> faceOccupancy existing \<noteq> {})"

text \<open>
  Modelled from the spec: \<open>validatePlacement(rack, candidate)\<close>, which goes through
  every existing placement of the rack and answers \<open>Ok\<close>, or \<open>Conflict\<close> with the ids of
  the colliding placements.
\<close>

definition validatePlacement :: "Placement list \<Rightarrow> Placement \<Rightarrow> validation" where
  "validatePlacement placements candidate =
     (case map p_id (filter (collides candidate) placements) of
        [] \<Rightarrow> Ok
      | ids \<Rightarrow> Conflict ids)"

text \<open>
  Modelled from the spec: the placements of its scenario, a 2U full-depth device at
  position 1 on the front, a 1U half-depth device at position 1 on the rear, and a 1U
  half-depth device at position 1 on the front.
\<close>

definition frontFull2U :: Placement where
  "frontFull2U = \<lparr>p_id = ''first'', p_position = 1, p_height = 2, p_face = Front,
                  p_full_depth = True\<rparr>"

definition rearHalf1U :: Placement where
  "rearHalf1U = \<lparr>p_id = ''second'', p_position = 1, p_height = 1, p_face = Rear,
                 p_full_depth = False\<rparr>"

definition frontHalf1U :: Placement where
  "frontHalf1U = \<lparr>p_id = ''third'', p_position = 1, p_height = 1, p_face = Front,
                  p_full_depth = False\<rparr>"

section \<open>Adaptive text fitter\<close>

text \<open>
  The sources hold the tests of the text fitter, not the fitter. The functions of this
  section follow the specification's description. A text is a list of UTF-16 code
  units, so that its length is the \<open>length\<close> that the width estimate multiplies and
  the ellipsis is one unit.
\<close>

type_synonym utf16 = "nat list"

text \<open>
  Modelled from the spec: the ellipsis character appended to a truncated text.
\<close>

definition ELLIPSIS :: nat where "ELLIPSIS = 0x2026"

text \<open>
  Modelled from the spec: \<open>charWidthRatio\<close>, "a fixed empirical constant" of about 0.58.
\<close>

definition CHAR_WIDTH_RATIO :: rat where "CHAR_WIDTH_RATIO = 58 / 100"

text \<open>
  Modelled from the spec: the options \<open>{maxFontSize, minFontSize, availableWidth}\<close>.
\<close>

record FitOptions =
  maxFontSize :: rat
  minFontSize :: rat
  availableWidth :: rat

text \<open>
  Modelled from the spec: the estimated width at a font size,
  \<open>text.length \<times> fontSize \<times> charWidthRatio\<close>.
\<close>

definition estimateWidth :: "utf16 \<Rightarrow> rat \<Rightarrow> rat" where
  "estimateWidth text fontSize = of_nat (length text) * fontSize * CHAR_WIDTH_RATIO"

text \<open>
  Modelled from the spec: the search of "the font size downward from max to min until
  estimated width \<le> availableWidth", taken as a linear search in steps of one that ends
  at the minimum.
\<close>

function searchFontSize :: "utf16 \<Rightarrow> rat \<Rightarrow> rat \<Rightarrow> rat \<Rightarrow> rat" where
  "searchFontSize text avail lo fontSize =
     (if estimateWidth text fontSize \<le> avail then fontSize
      else if fontSize - 1 < lo then lo
      else searchFontSize text avail lo (fontSize - 1))"
  by pat_completeness auto
termination
proof (relation "measure (\<lambda>(text, avail, lo, fontSize). nat \<lceil>fontSize - lo\<rceil>)")
  show "wf (measure (\<lambda>(text :: utf16, avail :: rat, lo, fontSize). nat \<lceil>fontSize - lo\<rceil>))"
    by simp
next
  fix t :: utf16 and avail lo fontSize :: rat
  assume "\<not> fontSize - 1 < lo"
  then have "0 < fontSize - lo" by simp
  then have "1 \<le> \<lceil>fontSize - lo\<rceil>" by (simp add: one_le_ceiling)
  moreover have "\<lceil>fontSize - 1 - lo\<rceil> = \<lceil>fontSize - lo\<rceil> - 1"
  proof -
    have "fontSize - 1 - lo = (fontSize - lo) - 1" by simp
    then show ?thesis by (simp only: ceiling_diff_one)
  qed
  ultimately show "((t, avail, lo, fontSize - 1), (t, avail, lo, fontSize))
      \<in> measure (\<lambda>(text, avail, lo, fontSize). nat \<lceil>fontSize - lo\<rceil>)"
    by simp
qed

declare searchFontSize.simps [simp del]

text \<open>
  Modelled from the spec: \<open>calculateFontSize\<close>, the search started at \<open>maxFontSize\<close>.
\<close>

definition calculateFontSize :: "utf16 \<Rightarrow> FitOptions \<Rightarrow> rat" where
  "calculateFontSize text opts =
     searchFontSize text (availableWidth opts) (minFontSize opts) (maxFontSize opts)"

text \<open>
  Modelled from the spec: the truncation loop, "truncate the string (preserving a
  prefix) and append an ellipsis character, re-measuring until it fits"; when no prefix
  fits, the ellipsis alone remains.
\<close>

fun truncateTo :: "utf16 \<Rightarrow> rat \<Rightarrow> rat \<Rightarrow> nat \<Rightarrow> utf16" where
  "truncateTo text avail fontSize 0 = [ELLIPSIS]"
| "truncateTo text avail fontSize (Suc n) =
     (if estimateWidth (take (Suc n) text @ [ELLIPSIS]) fontSize \<le> avail
      then take (Suc n) text @ [ELLIPSIS]
      else truncateTo text avail fontSize n)"

text \<open>
  Modelled from the spec: \<open>truncateWithEllipsis\<close>, which returns a text that fits as it
  is and truncates any other.
\<close>

definition truncateWithEllipsis :: "utf16 \<Rightarrow> rat \<Rightarrow> rat \<Rightarrow> utf16" where
  "truncateWithEllipsis text avail fontSize =
     (if estimateWidth text fontSize \<le> avail then text
      else truncateTo text avail fontSize (length text - 1))"

text \<open>
  Modelled from the spec: \<open>fitTextToWidth\<close>. "If availableWidth \<le> 0, return a bare
  ellipsis at minFontSize", for every text, as the testable property states it; "empty
  input returns empty text at maxFontSize"; otherwise the searched font size is used
  when the text fits at it, and the text is truncated at \<open>minFontSize\<close> when "even
  minFontSize overflows".
\<close>

definition fitTextToWidth :: "utf16 \<Rightarrow> FitOptions \<Rightarrow> utf16 \<times> rat" where
  "fitTextToWidth text opts =
     (if availableWidth opts \<le> 0 then ([ELLIPSIS], minFontSize opts)
      else if text = [] then ([], maxFontSize opts)
      else
        let fontSize = calculateFontSize text opts
        in if estimateWidth text fontSize \<le> availableWidth opts then (text, fontSize)
           else (truncateWithEllipsis text (availableWidth opts) (minFontSize opts),
                 minFontSize opts))"

section \<open>Properties of \<open>generateId\<close>\<close>

lemma upt16: "[0..<16] = [0, 1, 2, 3, 4, 5, 6, 7, 8, 9, 10, 11, 12, 13, 14, 15]"
  by (simp add: upt_rec)

lemma hexDigit_lower: "d < 16 \<Longrightarrow> isLowerHex (hexDigit d)"
proof -
  assume "d < 16"
  have "list_all (\<lambda>d. isLowerHex (hexDigit d)) [0..<16]"
    unfolding upt16 by (simp add: hexDigit_def isLowerHex_def)
  with \<open>d < 16\<close> show ?thesis by (simp add: list_all_iff)
qed

lemma byteToHex_eq: "byteToHex b = [hexDigit (unat b div 16), hexDigit (unat b mod 16)]"
proof -
  have "unat b < 2 ^ LENGTH(8)" by (rule unsigned_less)
  then have lt: "unat b < 256" by simp
  show ?thesis
  proof (cases "unat b < 16")
    case True
    then show ?thesis
      by (simp add: byteToHex_def padStart_def natToString16.simps hexDigit_def)
  next
    case False
    with lt have "unat b div 16 < 16" by simp
    with False show ?thesis
      by (simp add: byteToHex_def padStart_def natToString16.simps [of "unat b"]
          natToString16.simps [of "unat b div 16"])
  qed
qed

lemma high_nibble: "unat (b :: 8 word) div 16 = unat (drop_bit 4 b)"
  by (simp add: unat_div drop_bit_eq_div)

lemma version_nibble: "unat (((b :: 8 word) AND 0x0f) OR 0x40) div 16 = 4"
proof -
  have "drop_bit 4 ((b AND 0x0f) OR 0x40) = (4 :: 8 word)" by simp
  then show ?thesis by (simp only: high_nibble) simp
qed

lemma and3_le: "unat ((y :: 8 word) AND 3) \<le> 3"
  using word_and_le1 [of y 3] by (simp add: word_le_nat_alt)

lemma or8_plus: "unat (((y :: 8 word) AND 3) OR 8) = unat (y AND 3) + 8"
proof -
  have z: "(y AND 3) AND 8 = 0"
    by (simp add: and.assoc)
  have "((y AND 3) AND 8) + ((y AND 3) OR 8) = (y AND 3) + 8"
    by (rule word_plus_and_or)
  with z have e: "(y AND 3) OR 8 = (y AND 3) + 8" by simp
  have "unat ((y AND 3) + 8) = unat (y AND 3) + unat (8 :: 8 word)"
    using and3_le [of y] by (subst unat_add_lem [symmetric]) simp
  with e show ?thesis by simp
qed

lemma variant_nibble:
  "unat (((b :: 8 word) AND 0x3f) OR 0x80) div 16 \<in> {8, 9, 10, 11}"
proof -
  have "drop_bit 4 ((b AND 0x3f) OR 0x80) = (drop_bit 4 b AND 3) OR 8" by simp
  then have "unat ((b AND 0x3f) OR 0x80) div 16 = unat (drop_bit 4 b AND 3) + 8"
    by (simp only: high_nibble or8_plus)
  moreover have "unat (drop_bit 4 b AND 3) \<le> 3" by (rule and3_le)
  ultimately show ?thesis by auto
qed

lemma variant_digit: "hexDigit (unat (((b :: 8 word) AND 0x3f) OR 0x80) div 16) \<in> set ''89ab''"
  using variant_nibble [of b] by (auto simp: hexDigit_def)

lemma nibble_lower:
  "isLowerHex (hexDigit (unat (b :: 8 word) div 16))"
  "isLowerHex (hexDigit (unat (b :: 8 word) mod 16))"
proof -
  have "unat b < 2 ^ LENGTH(8)" by (rule unsigned_less)
  then have "unat b < 256" by simp
  then have "unat b div 16 < 16" by simp
  then show "isLowerHex (hexDigit (unat b div 16))" by (rule hexDigit_lower)
  show "isLowerHex (hexDigit (unat b mod 16))" by (rule hexDigit_lower) simp
qed


lemma upt36:
  "[0..<36] = [0, 1, 2, 3, 4, 5, 6, 7, 8, 9, 10, 11, 12, 13, 14, 15, 16, 17, 18, 19, 20,
               21, 22, 23, 24, 25, 26, 27, 28, 29, 30, 31, 32, 33, 34, 35]"
  by (simp add: upt_rec)

lemma fallback_form:
  assumes "randomUUID c = None" and "getRandomValues c = Some rnd"
  shows "generateId (Some c) =
     Inr (byteToHex (rnd 0) @ byteToHex (rnd 1) @ byteToHex (rnd 2) @ byteToHex (rnd 3) @ ''-''
          @ byteToHex (rnd 4) @ byteToHex (rnd 5) @ ''-''
          @ byteToHex (((rnd 6) AND 0x0f) OR 0x40) @ byteToHex (rnd 7) @ ''-''
          @ byteToHex (((rnd 8) AND 0x3f) OR 0x80) @ byteToHex (rnd 9) @ ''-''
          @ byteToHex (rnd 10) @ byteToHex (rnd 11) @ byteToHex (rnd 12) @ byteToHex (rnd 13)
          @ byteToHex (rnd 14) @ byteToHex (rnd 15))"
  unfolding generateId_def using assms
  by (simp add: upt16 byteToHex_eq slice_def sliceFrom_def Let_def)

lemma uuid_shape:
  assumes "\<And>i. isLowerHex (h i)" "\<And>i. isLowerHex (l i)" "h 6 = CHR ''4''" "h 8 \<in> set ''89ab''"
  shows "isUuidV4 ([h 0, l 0, h 1, l 1, h 2, l 2, h 3, l 3] @ ''-''
          @ [h 4, l 4, h 5, l 5] @ ''-''
          @ [h 6, l 6, h 7, l 7] @ ''-''
          @ [h 8, l 8, h 9, l 9] @ ''-''
          @ [h 10, l 10, h 11, l 11, h 12, l 12, h 13, l 13, h 14, l 14, h (15::nat), l (15::nat)])"
proof -
  let ?s = "[h 0, l 0, h 1, l 1, h 2, l 2, h 3, l 3] @ ''-''
          @ [h 4, l 4, h 5, l 5] @ ''-''
          @ [h 6, l 6, h 7, l 7] @ ''-''
          @ [h 8, l 8, h 9, l 9] @ ''-''
          @ [h 10, l 10, h 11, l 11, h 12, l 12, h 13, l 13, h 14, l 14, h (15::nat), l (15::nat)]"
  have a: "length ?s = 36" by simp
  have b: "list_all (\<lambda>i. if i \<in> {8, 13, 18, 23} then ?s ! i = CHR ''-'' else isLowerHex (?s ! i))
            [0..<36]"
    unfolding upt36 by (simp add: assms(1,2))
  have c: "?s ! 14 = CHR ''4''" using assms(3) by simp
  have d: "?s ! 19 \<in> set ''89ab''" using assms(4) by simp
  from a b c d show ?thesis unfolding isUuidV4_def by blast
qed

lemma fallback_uuid:
  assumes "randomUUID c = None" and "getRandomValues c = Some rnd"
    and g: "generateId (Some c) = Inr s"
  shows "isUuidV4 s"
proof -
  define b where "b = (\<lambda>i. if i = 6 then ((rnd 6) AND 0x0f) OR 0x40
                        else if i = 8 then ((rnd 8) AND 0x3f) OR 0x80 else rnd i)"
  define h where "h = (\<lambda>i. hexDigit (unat (b i) div 16))"
  define l where "l = (\<lambda>i. hexDigit (unat (b i) mod 16))"
  have 1: "\<And>i. isLowerHex (h i)" "\<And>i. isLowerHex (l i)"
    by (simp_all add: h_def l_def nibble_lower)
  have 2: "h 6 = CHR ''4''"
    by (simp add: h_def b_def version_nibble hexDigit_def)
  have 3: "h 8 \<in> set ''89ab''"
    unfolding h_def b_def using variant_digit [of "rnd 8"] by simp
  have "s = [h 0, l 0, h 1, l 1, h 2, l 2, h 3, l 3] @ ''-''
          @ [h 4, l 4, h 5, l 5] @ ''-''
          @ [h 6, l 6, h 7, l 7] @ ''-''
          @ [h 8, l 8, h 9, l 9] @ ''-''
          @ [h 10, l 10, h 11, l 11, h 12, l 12, h 13, l 13, h 14, l 14, h (15::nat), l (15::nat)]"
    using g unfolding fallback_form [OF assms(1,2)]
    by (simp add: byteToHex_eq h_def l_def b_def)
  then show ?thesis using uuid_shape [of h l, OF 1 2 3] by simp
qed

text \<open>
  C10. Every string that \<open>generateId\<close> returns is a well-formed version-4 UUID: 36
  characters in the 8-4-4-4-12 layout of lowercase hex digits, version digit \<open>4\<close>,
  variant digit one of \<open>8\<close>, \<open>9\<close>, \<open>a\<close>, \<open>b\<close>. On the fallback path this holds
  for every 16 bytes that \<open>getRandomValues\<close> can store; on the native path the string
  is the platform's, so the platform is assumed to return a version-4 UUID there.
\<close>

theorem generateId_uuid_v4:
  assumes ret: "generateId env = Inr s"
    and native: "\<And>c u. env = Some c \<Longrightarrow> randomUUID c = Some u \<Longrightarrow> isUuidV4 u"
  shows "isUuidV4 s"
proof (cases env)
  case None
  with ret show ?thesis by (simp add: generateId_def)
next
  case (Some c)
  show ?thesis
  proof (cases "randomUUID c")
    case (Some u)
    with ret \<open>env = Some c\<close> have "s = u" by (simp add: generateId_def)
    with native [OF \<open>env = Some c\<close> Some] show ?thesis by simp
  next
    case None
    show ?thesis
    proof (cases "getRandomValues c")
      case (Some rnd)
      from None Some ret \<open>env = Some c\<close> show ?thesis by (auto intro: fallback_uuid)
    next
      case no: None
      with None ret \<open>env = Some c\<close> show ?thesis by (simp add: generateId_def)
    qed
  qed
qed

theorem generateId_uuid_v4_witness:
  "generateId (Some \<lparr>randomUUID = None, getRandomValues = Some (\<lambda>i. of_nat (17 * i))\<rparr>)
     = Inr ''00112233-4455-4677-8899-aabbccddeeff''
   \<and> isUuidV4 ''00112233-4455-4677-8899-aabbccddeeff''
   \<and> generateId (Some \<lparr>randomUUID = Some ''123e4567-e89b-42d3-a456-426614174000'',
                          getRandomValues = None\<rparr>)
     = Inr ''123e4567-e89b-42d3-a456-426614174000''
   \<and> isUuidV4 ''123e4567-e89b-42d3-a456-426614174000''"
proof -
  let ?env = "Some \<lparr>randomUUID = None, getRandomValues = Some (\<lambda>i. of_nat (17 * i))\<rparr>"
  have e: "generateId ?env = Inr ''00112233-4455-4677-8899-aabbccddeeff''"
    by (subst fallback_form [where rnd = "\<lambda>i. of_nat (17 * i)"])
       (simp_all add: byteToHex_eq hexDigit_def)
  have 1: "isUuidV4 ''00112233-4455-4677-8899-aabbccddeeff''"
  proof (rule generateId_uuid_v4 [OF e])
    fix c u
    assume "?env = Some c" and "randomUUID c = Some u"
    then show "isUuidV4 u" by auto
  qed
  let ?native = "Some \<lparr>randomUUID = Some ''123e4567-e89b-42d3-a456-426614174000'',
                        getRandomValues = None\<rparr>"
  have n: "generateId ?native = Inr ''123e4567-e89b-42d3-a456-426614174000''"
    by (simp add: generateId_def)
  have u: "isUuidV4 ''123e4567-e89b-42d3-a456-426614174000''"
    unfolding isUuidV4_def upt36 by (simp add: isLowerHex_def)
  have 2: "isUuidV4 ''123e4567-e89b-42d3-a456-426614174000''"
  proof (rule generateId_uuid_v4 [OF n])
    fix c u
    assume "?native = Some c" and "randomUUID c = Some u"
    with u show "isUuidV4 u" by auto
  qed
  from e 1 n 2 show ?thesis by blast
qed

section \<open>Evaluating floors of rational constants\<close>

lemma floor_quotient_rat:
  "\<lfloor>numeral a / numeral b :: rat\<rfloor> = numeral a div numeral b"
  using floor_divide_of_int_eq [of "numeral a" "numeral b", where ?'a = rat] by simp

lemma floor_minus_quotient_rat:
  "\<lfloor>- (numeral a / numeral b) :: rat\<rfloor> = - numeral a div numeral b"
  using floor_divide_of_int_eq [of "- numeral a" "numeral b", where ?'a = rat] by simp

lemma ceiling_quotient_rat:
  "\<lceil>numeral a / numeral b :: rat\<rceil> = - (- numeral a div numeral b)"
  by (simp add: ceiling_def floor_minus_quotient_rat)

lemmas rat_rounding = floor_quotient_rat floor_minus_quotient_rat ceiling_quotient_rat

section \<open>Rounding to the nearest double\<close>

text \<open>
  The exponent brackets its argument between two powers of two. Rounding never
  crosses a multiple of the unit in the last place, so it fixes every integer below
  \<open>2 ^ 53\<close>, keeps a number on its side of such an integer, and keeps it on its side of
  any double.
\<close>

lemma powi_two_Suc: "(2 :: rat) powi (e + 1) = 2 * 2 powi e"
  by (simp add: power_int_add_1)

lemma powi_two_add: "(2 :: rat) powi (a + b) = 2 powi a * 2 powi b"
  by (simp add: power_int_add)

lemma powi_two_diff: "(2 :: rat) powi (a - b) = 2 powi a / 2 powi b"
  by (simp add: power_int_diff)

lemma powi_two_le_iff: "(2 :: rat) powi a \<le> 2 powi b \<longleftrightarrow> a \<le> b"
proof
  assume "(2 :: rat) powi a \<le> 2 powi b"
  show "a \<le> b"
  proof (rule ccontr)
    assume "\<not> a \<le> b"
    then have "b < a" by simp
    then have "(2 :: rat) powi b < 2 powi a" by (rule power_int_strict_increasing) simp
    with \<open>(2 :: rat) powi a \<le> 2 powi b\<close> show False by simp
  qed
next
  assume "a \<le> b"
  then show "(2 :: rat) powi a \<le> 2 powi b" by (rule power_int_increasing) simp
qed

lemma powi_two_less_iff: "(2 :: rat) powi a < 2 powi b \<longleftrightarrow> a < b"
  using powi_two_le_iff [of b a] by (simp add: not_le [symmetric])

lemma powi_two_pred: "(2 :: rat) powi (e - 1) = 2 powi e / 2"
  by (simp add: power_int_diff)

lemma expoUp_bounds:
  "1 \<le> x \<Longrightarrow> 0 \<le> expoUp x \<and> 2 powi expoUp x \<le> x \<and> x < 2 powi (expoUp x + 1)"
proof (induction x rule: expoUp.induct)
  case (1 x)
  show ?case
  proof (cases "x < 2")
    case True
    then show ?thesis using "1.prems" by (simp add: expoUp.simps [of x])
  next
    case False
    then have "1 \<le> x / 2" by simp
    from "1.IH" [OF False this]
    have ih: "0 \<le> expoUp (x / 2)" "2 powi expoUp (x / 2) \<le> x / 2"
      "x / 2 < 2 powi (expoUp (x / 2) + 1)"
      by simp_all
    have e: "expoUp x = 1 + expoUp (x / 2)" using False by (simp add: expoUp.simps [of x])
    from ih show ?thesis unfolding e by (simp add: powi_two_add)
  qed
qed

lemma expoDown_bounds:
  "0 < x \<Longrightarrow> x < 1 \<Longrightarrow>
     expoDown x < 0 \<and> 2 powi expoDown x \<le> x \<and> x < 2 powi (expoDown x + 1)"
proof (induction x rule: expoDown.induct)
  case (1 x)
  from "1.prems" have c: "\<not> (x \<le> 0 \<or> 1 \<le> x)" by simp
  then have e: "expoDown x = expoDown (2 * x) - 1" by (simp add: expoDown.simps [of x])
  show ?case
  proof (cases "2 * x < 1")
    case True
    from "1.IH" [OF c _ True] "1.prems"
    have ih: "expoDown (2 * x) < 0" "2 powi expoDown (2 * x) \<le> 2 * x"
      "2 * x < 2 powi (expoDown (2 * x) + 1)"
      by simp_all
    from ih show ?thesis unfolding e by (simp add: powi_two_Suc powi_two_pred)
  next
    case False
    then have "expoDown (2 * x) = 0" by (simp add: expoDown.simps [of "2 * x"])
    with False "1.prems" show ?thesis unfolding e by (simp add: powi_two_pred)
  qed
qed

lemma exponent_bounds:
  assumes "x \<noteq> 0"
  shows "2 powi exponent x \<le> \<bar>x\<bar>" and "\<bar>x\<bar> < 2 powi (exponent x + 1)"
proof -
  have "2 powi exponent x \<le> \<bar>x\<bar> \<and> \<bar>x\<bar> < 2 powi (exponent x + 1)"
  proof (cases "1 \<le> \<bar>x\<bar>")
    case True
    with expoUp_bounds [OF True] show ?thesis by (simp add: exponent_def)
  next
    case False
    with assms have "0 < \<bar>x\<bar>" "\<bar>x\<bar> < 1" by simp_all
    from expoDown_bounds [OF this] False show ?thesis by (simp add: exponent_def)
  qed
  then show "2 powi exponent x \<le> \<bar>x\<bar>" and "\<bar>x\<bar> < 2 powi (exponent x + 1)" by simp_all
qed

lemma roundHalfEven_of_int: "roundHalfEven (of_int n) = n"
  by (simp add: roundHalfEven_def)

lemma roundHalfEven_floor: "\<lfloor>y\<rfloor> \<le> roundHalfEven y" "roundHalfEven y \<le> \<lfloor>y\<rfloor> + 1"
  by (simp_all add: roundHalfEven_def Let_def)

lemma roundHalfEven_ge:
  assumes "of_int n \<le> y"
  shows "n \<le> roundHalfEven y"
proof -
  from assms have "n \<le> \<lfloor>y\<rfloor>" by (simp only: le_floor_iff)
  with roundHalfEven_floor(1) [of y] show ?thesis by simp
qed

lemma roundHalfEven_le:
  assumes "y \<le> of_int n"
  shows "roundHalfEven y \<le> n"
proof (cases "y = of_int n")
  case True
  then show ?thesis by (simp add: roundHalfEven_of_int)
next
  case False
  with assms have "y < of_int n" by simp
  then have "\<lfloor>y\<rfloor> < n" by (simp add: floor_less_iff)
  with roundHalfEven_floor(2) [of y] show ?thesis by simp
qed

lemma ulp_pos: "0 < ulp x"
  by (simp add: ulp_def)

lemma roundToDouble_grid_le:
  assumes "x \<le> of_int k * ulp x"
  shows "roundToDouble x \<le> of_int k * ulp x"
proof (cases "x = 0")
  case True
  with assms show ?thesis by (simp add: roundToDouble_def)
next
  case False
  from assms have "x / ulp x \<le> of_int k" using ulp_pos [of x] by (simp add: pos_divide_le_eq)
  then have "roundHalfEven (x / ulp x) \<le> k" by (rule roundHalfEven_le)
  then have "(of_int (roundHalfEven (x / ulp x)) :: rat) \<le> of_int k" by simp
  then have "of_int (roundHalfEven (x / ulp x)) * ulp x \<le> of_int k * ulp x"
    using ulp_pos [of x] by (simp only: mult_le_cancel_right_pos)
  with False show ?thesis by (simp add: roundToDouble_def)
qed

lemma roundToDouble_grid_ge:
  assumes "of_int k * ulp x \<le> x"
  shows "of_int k * ulp x \<le> roundToDouble x"
proof (cases "x = 0")
  case True
  with assms show ?thesis by (simp add: roundToDouble_def)
next
  case False
  from assms have "of_int k \<le> x / ulp x" using ulp_pos [of x] by (simp add: pos_le_divide_eq)
  then have "k \<le> roundHalfEven (x / ulp x)" by (rule roundHalfEven_ge)
  then have "(of_int k :: rat) \<le> of_int (roundHalfEven (x / ulp x))" by simp
  then have "of_int k * ulp x \<le> of_int (roundHalfEven (x / ulp x)) * ulp x"
    using ulp_pos [of x] by (simp only: mult_le_cancel_right_pos)
  with False show ?thesis by (simp add: roundToDouble_def)
qed

lemma exponent_less:
  assumes "x \<noteq> 0" and "\<bar>x\<bar> < 2 powi e"
  shows "exponent x < e"
proof -
  from exponent_bounds(1) [OF assms(1)] assms(2) have "(2 :: rat) powi exponent x < 2 powi e"
    by linarith
  then show ?thesis by (simp only: powi_two_less_iff)
qed

lemma int_on_grid:
  assumes "x \<noteq> 0" and "\<bar>x\<bar> < 2 ^ 53"
  shows "\<exists>k. of_int n = of_int k * ulp x"
proof -
  have "\<bar>x\<bar> < 2 powi 53" using assms(2) by simp
  from exponent_less [OF assms(1) this] have e: "max (exponent x) (- 1022) - 52 \<le> 0" by simp
  define m where "m = nat (52 - max (exponent x) (- 1022))"
  have "max (exponent x) (- 1022) - 52 = - int m" using e by (simp add: m_def)
  then have "ulp x = 1 / 2 ^ m" by (simp add: ulp_def power_int_minus_divide)
  then have "of_int n = of_int (n * 2 ^ m) * ulp x" by simp
  then show ?thesis ..
qed

lemma roundToDouble_le_int:
  assumes "\<bar>x\<bar> < 2 ^ 53" and "x \<le> of_int n"
  shows "roundToDouble x \<le> of_int n"
proof (cases "x = 0")
  case True
  with assms show ?thesis by (simp add: roundToDouble_def)
next
  case False
  from int_on_grid [OF False assms(1)] obtain k where k: "of_int n = of_int k * ulp x" ..
  from assms(2) show ?thesis unfolding k by (rule roundToDouble_grid_le)
qed

lemma roundToDouble_ge_int:
  assumes "\<bar>x\<bar> < 2 ^ 53" and "of_int n \<le> x"
  shows "of_int n \<le> roundToDouble x"
proof (cases "x = 0")
  case True
  with assms show ?thesis by (simp add: roundToDouble_def)
next
  case False
  from int_on_grid [OF False assms(1)] obtain k where k: "of_int n = of_int k * ulp x" ..
  from assms(2) show ?thesis unfolding k by (rule roundToDouble_grid_ge)
qed

lemma roundToDouble_between:
  assumes "of_int m \<le> x" and "x \<le> of_int n" and "- (2 ^ 53) < m" and "n < 2 ^ 53"
  shows "of_int m \<le> roundToDouble x" and "roundToDouble x \<le> of_int n"
    and "toDouble x = Fin (roundToDouble x)"
proof -
  have "(of_int n :: rat) < of_int (2 ^ 53)" using assms(4) by (simp only: of_int_less_iff)
  moreover have "(of_int (- (2 ^ 53)) :: rat) < of_int m" using assms(3) by (simp only: of_int_less_iff)
  ultimately have x: "\<bar>x\<bar> < 2 ^ 53" using assms(1,2) by simp
  show lo: "of_int m \<le> roundToDouble x" using x assms(1) by (rule roundToDouble_ge_int)
  show hi: "roundToDouble x \<le> of_int n" using x assms(2) by (rule roundToDouble_le_int)
  have "(of_int n :: rat) < 2 ^ 1024"
    using \<open>(of_int n :: rat) < of_int (2 ^ 53)\<close> by simp
  moreover have "- (2 ^ 1024) < (of_int m :: rat)"
    using \<open>(of_int (- (2 ^ 53)) :: rat) < of_int m\<close> by simp
  ultimately show "toDouble x = Fin (roundToDouble x)"
    using lo hi by (simp add: toDouble_def Let_def)
qed

lemma roundToDouble_of_int:
  assumes "- (2 ^ 53) < n" and "n < 2 ^ 53"
  shows "roundToDouble (of_int n) = of_int n" and "toDouble (of_int n) = Fin (of_int n)"
proof -
  note b = roundToDouble_between [OF order_refl order_refl assms]
  from b(1,2) show "roundToDouble (of_int n) = of_int n" by simp
  with b(3) show "toDouble (of_int n) = Fin (of_int n)" by simp
qed

lemma ulp_binade:
  "2 ^ 52 * ulp x = 2 powi max (exponent x) (- 1022)"
  "2 ^ 53 * ulp x = 2 powi (max (exponent x) (- 1022) + 1)"
  by (simp_all add: ulp_def powi_two_diff powi_two_add)

lemma below_binade:
  assumes "x \<noteq> 0"
  shows "\<bar>x\<bar> < 2 powi (max (exponent x) (- 1022) + 1)"
proof -
  have "(2 :: rat) powi (exponent x + 1) \<le> 2 powi (max (exponent x) (- 1022) + 1)"
    by (simp add: powi_two_le_iff)
  with exponent_bounds(2) [OF assms] show ?thesis by linarith
qed

lemma above_binade:
  assumes "x \<noteq> 0" and "- 1022 < max (exponent x) (- 1022)"
  shows "2 powi max (exponent x) (- 1022) \<le> \<bar>x\<bar>"
proof -
  from assms(2) have "max (exponent x) (- 1022) = exponent x" by simp
  with exponent_bounds(1) [OF assms(1)] show ?thesis by simp
qed

lemma roundToDouble_nonneg:
  assumes "0 \<le> x"
  shows "0 \<le> roundToDouble x"
  using roundToDouble_grid_ge [of 0 x] assms by simp

lemma roundToDouble_nonpos:
  assumes "x \<le> 0"
  shows "roundToDouble x \<le> 0"
  using roundToDouble_grid_le [of x 0] assms by simp

lemma roundToDouble_upper:
  assumes "0 < x"
  shows "roundToDouble x \<le> 2 powi (max (exponent x) (- 1022) + 1)"
proof -
  from assms have "x \<noteq> 0" by simp
  from below_binade [OF this] have "\<bar>x\<bar> < 2 ^ 53 * ulp x" by (simp only: ulp_binade(2))
  then have "x \<le> of_int (2 ^ 53) * ulp x" by simp
  then have "roundToDouble x \<le> of_int (2 ^ 53) * ulp x" by (rule roundToDouble_grid_le)
  then have "roundToDouble x \<le> 2 ^ 53 * ulp x" by simp
  then show ?thesis by (simp only: ulp_binade(2))
qed

lemma roundToDouble_lower:
  assumes "0 < x" and "- 1022 < max (exponent x) (- 1022)"
  shows "2 powi max (exponent x) (- 1022) \<le> roundToDouble x"
proof -
  from assms have "x \<noteq> 0" by simp
  from above_binade [OF this assms(2)] have "2 ^ 52 * ulp x \<le> \<bar>x\<bar>"
    by (simp only: ulp_binade(1))
  then have "of_int (2 ^ 52) * ulp x \<le> x" using assms(1) by simp
  then have "of_int (2 ^ 52) * ulp x \<le> roundToDouble x" by (rule roundToDouble_grid_ge)
  then have "2 ^ 52 * ulp x \<le> roundToDouble x" by simp
  then show ?thesis by (simp only: ulp_binade(1))
qed

lemma roundToDouble_grid:
  "roundToDouble z = of_int (roundHalfEven (z / ulp z)) * ulp z"
  by (simp add: roundToDouble_def roundHalfEven_def)

text \<open>Rounding does not cross a double: one that bounds a number bounds its rounding.\<close>

lemma roundToDouble_le_double:
  assumes "0 \<le> x" and "x \<le> roundToDouble z"
  shows "roundToDouble x \<le> roundToDouble z"
proof (cases "x = 0")
  case True
  with assms(2) show ?thesis by (simp add: roundToDouble_def)
next
  case False
  with assms(1) have x: "0 < x" by simp
  have z: "0 < z"
  proof (rule ccontr)
    assume "\<not> 0 < z"
    then have "roundToDouble z \<le> 0" by (intro roundToDouble_nonpos) simp
    with x assms(2) show False by simp
  qed
  define a where "a = max (exponent x) (- 1022)"
  define b where "b = max (exponent z) (- 1022)"
  consider "a = b" | "a < b" | "b < a" by linarith
  then show ?thesis
  proof cases
    case 1
    then have "ulp x = ulp z" by (simp add: ulp_def a_def b_def)
    with assms(2) have "x \<le> of_int (roundHalfEven (z / ulp z)) * ulp x"
      by (simp add: roundToDouble_grid [of z])
    then have "roundToDouble x \<le> of_int (roundHalfEven (z / ulp z)) * ulp x"
      by (rule roundToDouble_grid_le)
    with \<open>ulp x = ulp z\<close> show ?thesis by (simp add: roundToDouble_grid [of z])
  next
    case 2
    then have "- 1022 < b" by (simp add: a_def)
    from roundToDouble_lower [OF z] this have "2 powi b \<le> roundToDouble z" by (simp add: b_def)
    moreover from roundToDouble_upper [OF x] have "roundToDouble x \<le> 2 powi (a + 1)"
      by (simp add: a_def)
    moreover from 2 have "(2 :: rat) powi (a + 1) \<le> 2 powi b" by (simp add: powi_two_le_iff)
    ultimately show ?thesis by linarith
  next
    case 3
    then have "- 1022 < a" by (simp add: b_def)
    from above_binade [of x] x this have "2 powi a \<le> x" by (simp add: a_def)
    moreover from roundToDouble_upper [OF z] have "roundToDouble z \<le> 2 powi (b + 1)"
      by (simp add: b_def)
    moreover from 3 have "(2 :: rat) powi (b + 1) \<le> 2 powi a" by (simp add: powi_two_le_iff)
    ultimately have "x \<le> 2 powi a" using assms(2) by linarith
    then have "x \<le> 2 ^ 52 * ulp x" by (simp only: ulp_binade(1) a_def)
    then have "x \<le> of_int (2 ^ 52) * ulp x" by simp
    then have "roundToDouble x \<le> of_int (2 ^ 52) * ulp x" by (rule roundToDouble_grid_le)
    then have "roundToDouble x \<le> 2 ^ 52 * ulp x" by simp
    then have "roundToDouble x \<le> 2 powi a" by (simp only: ulp_binade(1) a_def)
    with \<open>2 powi a \<le> x\<close> assms(2) show ?thesis by linarith
  qed
qed

lemma roundToDouble_ge_double:
  assumes "0 \<le> z" and "roundToDouble z \<le> x"
  shows "roundToDouble z \<le> roundToDouble x"
proof -
  from assms(1) have nn: "0 \<le> roundToDouble z" by (rule roundToDouble_nonneg)
  with assms(2) have x0: "0 \<le> x" by simp
  show ?thesis
  proof (cases "x = 0 \<or> z = 0")
    case True
    then show ?thesis
    proof
      assume "x = 0"
      with assms(2) show ?thesis by (simp add: roundToDouble_def)
    next
      assume "z = 0"
      with roundToDouble_nonneg [OF x0] show ?thesis by (simp add: roundToDouble_def)
    qed
  next
    case False
    with x0 assms(1) have x: "0 < x" and z: "0 < z" by simp_all
    define a where "a = max (exponent x) (- 1022)"
    define b where "b = max (exponent z) (- 1022)"
    consider "a = b" | "b < a" | "a < b" by linarith
    then show ?thesis
    proof cases
      case 1
      then have "ulp x = ulp z" by (simp add: ulp_def a_def b_def)
      with assms(2) have "of_int (roundHalfEven (z / ulp z)) * ulp x \<le> x"
        by (simp add: roundToDouble_grid [of z])
      then have "of_int (roundHalfEven (z / ulp z)) * ulp x \<le> roundToDouble x"
        by (rule roundToDouble_grid_ge)
      with \<open>ulp x = ulp z\<close> show ?thesis by (simp add: roundToDouble_grid [of z])
    next
      case 2
      then have "- 1022 < a" by (simp add: b_def)
      from roundToDouble_lower [OF x] this have "2 powi a \<le> roundToDouble x" by (simp add: a_def)
      moreover from roundToDouble_upper [OF z] have "roundToDouble z \<le> 2 powi (b + 1)"
        by (simp add: b_def)
      moreover from 2 have "(2 :: rat) powi (b + 1) \<le> 2 powi a"
        by (simp add: powi_two_le_iff)
      ultimately show ?thesis by linarith
    next
      case 3
      then have "- 1022 < b" by (simp add: a_def)
      from roundToDouble_lower [OF z] this have "2 powi b \<le> roundToDouble z" by (simp add: b_def)
      moreover from below_binade [of x] x have "x < 2 powi (a + 1)" by (simp add: a_def)
      moreover from 3 have "(2 :: rat) powi (a + 1) \<le> 2 powi b"
        by (simp add: powi_two_le_iff)
      ultimately have False using assms(2) by linarith
      then show ?thesis ..
    qed
  qed
qed

lemma roundToDouble_idem:
  assumes "0 \<le> x"
  shows "roundToDouble (roundToDouble x) = roundToDouble x"
proof (rule antisym)
  from assms have nn: "0 \<le> roundToDouble x" by (rule roundToDouble_nonneg)
  show "roundToDouble (roundToDouble x) \<le> roundToDouble x"
    using nn order_refl by (rule roundToDouble_le_double)
  show "roundToDouble x \<le> roundToDouble (roundToDouble x)"
    using assms order_refl by (rule roundToDouble_ge_double)
qed

text \<open>Rewrite rules that evaluate the rounding of a numeral.\<close>

lemmas double_eval = toDouble_def roundToDouble_def ulp_def exponent_def expoUp.simps
  expoDown.simps roundHalfEven_def Let_def rat_rounding

section \<open>Properties of the rack renderer\<close>

lemma renderDevices_concat:
  "renderDevices rack catalogue ps =
     concat (map (\<lambda>(p, d). deviceElements rack p d)
       (List.map_filter
          (\<lambda>p. map_option (Pair p) (find (\<lambda>d. slug d = device_type p) catalogue)) ps))"
  by (induction ps) (auto simp: List.map_filter_simps split: option.splits)

lemma drawn_fst:
  "map fst (List.map_filter
       (\<lambda>p. map_option (Pair p) (find (\<lambda>d. slug d = device_type p) catalogue)) ps)
   = filter (\<lambda>p. find (\<lambda>d. slug d = device_type p) catalogue \<noteq> None) ps"
  by (induction ps) (auto simp: List.map_filter_simps split: option.splits)

lemma children_renderRack:
  "children (renderRack rack catalogue xo yo label) =
     rackFrame rack
     @ concat (map (\<lambda>(p, d). deviceElements rack p d) (drawnDevices rack catalogue))
     @ [viewLabel label]"
  by (simp add: renderRack_def drawnDevices_def renderDevices_concat)

lemma drawn_positions_sorted:
  "sorted (map (\<lambda>p. - position p) (map fst (drawnDevices rack catalogue)))"
proof -
  have "sorted (map (\<lambda>p. - position p) (sortedDevices rack))"
    by (simp add: sortedDevices_def)
  then show ?thesis
    unfolding drawnDevices_def drawn_fst by (rule sorted_filter)
qed

lemma descending_order:
  assumes "sorted (map (\<lambda>p. - key p) xs)"
    and "i < length xs" and "j < length xs"
    and "(key (xs ! i) :: rat) < key (xs ! j)"
  shows "j < i"
proof (rule ccontr)
  assume "\<not> j < i"
  then have "i \<le> j" by simp
  with assms(1,3) have "map (\<lambda>p. - key p) xs ! i \<le> map (\<lambda>p. - key p) xs ! j"
    by (intro sorted_nth_mono) simp_all
  with assms(2,3) have "key (xs ! j) \<le> key (xs ! i)" by simp
  with assms(4) show False by simp
qed



text \<open>
  C7. In the group that \<open>renderRack\<close> builds, the rack frame comes first, then the
  elements of the drawn devices in drawing order, then the view label. The drawn
  devices are the rack's placements whose type is in the catalogue, and whenever one
  has a smaller position than another, the one with the larger position comes earlier
  in the drawing order: lower devices are appended later and paint on top. The first
  revision's views append the groups of their sample devices in the same order.
\<close>

theorem renderRack_paint_order:
  "children (renderRack rack catalogue xo yo label) =
     rackFrame rack
     @ concat (map (\<lambda>(p, d). deviceElements rack p d) (drawnDevices rack catalogue))
     @ [viewLabel label]
   \<and> mset (map fst (drawnDevices rack catalogue)) =
       mset (filter (\<lambda>p. find (\<lambda>d. slug d = device_type p) catalogue \<noteq> None) (devices rack))
   \<and> (\<forall>i j. i < length (drawnDevices rack catalogue)
          \<longrightarrow> j < length (drawnDevices rack catalogue)
          \<longrightarrow> position (fst (drawnDevices rack catalogue ! i))
                < position (fst (drawnDevices rack catalogue ! j))
          \<longrightarrow> j < i)
   \<and> generateSingleView_devices createDevice = map createDevice sortedSampleDevices
   \<and> mset sortedSampleDevices = mset sampleDevices
   \<and> (\<forall>i j. i < length sortedSampleDevices
          \<longrightarrow> j < length sortedSampleDevices
          \<longrightarrow> uPosition (sortedSampleDevices ! i) < uPosition (sortedSampleDevices ! j)
          \<longrightarrow> j < i)"
proof (intro conjI allI impI)
  show "children (renderRack rack catalogue xo yo label) =
     rackFrame rack
     @ concat (map (\<lambda>(p, d). deviceElements rack p d) (drawnDevices rack catalogue))
     @ [viewLabel label]"
    by (rule children_renderRack)
next
  show "mset (map fst (drawnDevices rack catalogue)) =
       mset (filter (\<lambda>p. find (\<lambda>d. slug d = device_type p) catalogue \<noteq> None) (devices rack))"
    unfolding drawnDevices_def drawn_fst by (simp only: mset_filter sortedDevices_def mset_sort)
next
  fix i j
  let ?dd = "drawnDevices rack catalogue"
  assume i: "i < length ?dd" and j: "j < length ?dd"
    and lt: "position (fst (?dd ! i)) < position (fst (?dd ! j))"
  have "sorted (map (\<lambda>q. - position (fst q)) ?dd)"
    using drawn_positions_sorted [of rack catalogue] by (simp add: comp_def)
  from descending_order [OF this i j lt] show "j < i" .
next
  show "generateSingleView_devices createDevice = map createDevice sortedSampleDevices"
    by (simp add: generateSingleView_devices_def)
next
  show "mset sortedSampleDevices = mset sampleDevices"
    by (simp only: sortedSampleDevices_def mset_sort)
next
  fix i j
  assume i: "i < length sortedSampleDevices" and j: "j < length sortedSampleDevices"
    and lt: "uPosition (sortedSampleDevices ! i) < uPosition (sortedSampleDevices ! j)"
  have "sorted (map (\<lambda>d. - uPosition d) sortedSampleDevices)"
    by (simp add: sortedSampleDevices_def)
  from descending_order [OF this i j lt] show "j < i" .
qed

lemma drawn_testRack:
  "map (\<lambda>(p, d). (position p, slug d)) (drawnDevices testRack testDevices) =
     [(17, ''udm-pro''), (16, ''usw-pro-48''), (15, ''usw-pro-48''), (14, ''patch-panel''),
      (13, ''blank-panel-1u''), (12, ''poweredge-r640''), (11, ''poweredge-r640''),
      (9, ''poweredge-r730''), (8, ''blank-panel-1u''), (7, ''synology-rs820''),
      (5, ''synology-rs1221''), (3, ''apc-smt1500rm''), (1, ''cyberpower-or1500'')]"
  by (simp add: drawnDevices_def sortedDevices_def testRack_def testDevices_def
      List.map_filter_simps)

lemma drawn_testRack_length: "length (drawnDevices testRack testDevices) = 13"
  using arg_cong [OF drawn_testRack, of length] by (simp only: length_map list.size)

lemma drawn_testRack_last: "position (fst (drawnDevices testRack testDevices ! 12)) = 1"
proof -
  have "map (\<lambda>(p, d). (position p, slug d)) (drawnDevices testRack testDevices) ! 12
        = (1, ''cyberpower-or1500'')"
    by (simp only: drawn_testRack) simp
  then show ?thesis using drawn_testRack_length by (simp add: case_prod_unfold)
qed

lemma drawn_testRack_first: "position (fst (drawnDevices testRack testDevices ! 0)) = 17"
proof -
  have "map (\<lambda>(p, d). (position p, slug d)) (drawnDevices testRack testDevices) ! 0
        = (17, ''udm-pro'')"
    by (simp only: drawn_testRack) simp
  then show ?thesis using drawn_testRack_length by (simp add: case_prod_unfold)
qed

lemma sorted_sample:
  "map uPosition sortedSampleDevices = [11, 7, 5, 4, 3, 1]"
  by (simp add: sortedSampleDevices_def sampleDevices_def)

theorem renderRack_paint_order_witness:
  "(12::nat) < length (drawnDevices testRack testDevices)
   \<and> position (fst (drawnDevices testRack testDevices ! 12))
       < position (fst (drawnDevices testRack testDevices ! 0))
   \<and> (0::nat) < 12
   \<and> (5::nat) < length sortedSampleDevices
   \<and> uPosition (sortedSampleDevices ! 5) < uPosition (sortedSampleDevices ! 0)
   \<and> (0::nat) < 5"
proof -
  have a: "(12::nat) < length (drawnDevices testRack testDevices)
   \<and> position (fst (drawnDevices testRack testDevices ! 12))
       < position (fst (drawnDevices testRack testDevices ! 0))
   \<and> (0::nat) < 12"
    using renderRack_paint_order [of testRack testDevices 0 0 "''FRONT''",
        THEN conjunct2, THEN conjunct2, THEN conjunct1, rule_format, of 12 0]
    by (simp add: drawn_testRack_length drawn_testRack_last drawn_testRack_first)
  have len: "length sortedSampleDevices = 6"
    using arg_cong [OF sorted_sample, of length] by (simp only: length_map list.size)
  have "map uPosition sortedSampleDevices ! 5 = 1" "map uPosition sortedSampleDevices ! 0 = 11"
    by (simp_all only: sorted_sample) simp_all
  with len have v: "uPosition (sortedSampleDevices ! 5) = 1"
    "uPosition (sortedSampleDevices ! 0) = 11"
    by simp_all
  have b: "(5::nat) < length sortedSampleDevices
   \<and> uPosition (sortedSampleDevices ! 5) < uPosition (sortedSampleDevices ! 0)
   \<and> (0::nat) < 5"
    using renderRack_paint_order [of testRack testDevices 0 0 "''FRONT''",
        THEN conjunct2, THEN conjunct2, THEN conjunct2, THEN conjunct2, THEN conjunct2,
        rule_format, of 5 0]
    by (simp add: len v)
  from a b show ?thesis by blast
qed










section \<open>Properties of the port layout\<close>

lemma Math_min_3_eq_2: "Math_min m (Fin 3) = Fin 2 \<Longrightarrow> m = Fin 2"
  by (cases m) (auto simp: Math_min_def split: if_splits)

lemma required_width_24: "jgt (jmul (Math_ceil (jdiv (Fin 48) (Fin 2))) (Fin 8)) (Fin 186)"
  by (simp add: jgt_def double_eval)

lemma optimal_rows_48:
  "Math_ceil (jdiv (Fin 48) (Math_floor (jdiv (Fin 186) (Fin 8)))) = Fin 3"
proof -
  have "Math_floor (jdiv (Fin 186) (Fin 8)) = Fin 23" by (simp add: double_eval)
  moreover have "Math_ceil (jdiv (Fin 48) (Fin 23)) = Fin 3" by (simp add: double_eval)
  ultimately show ?thesis by (simp only:)
qed

lemma calculatePortLayout_individual:
  assumes "calculatePortLayout g w h ifs zoom rw = Individual rows perRow radius spacing ps"
  shows "rows = Math_min
           (Math_floor (jdiv (jsub h PORT_Y_OFFSET)
              (jadd (jmul PORT_RADIUS_DEFAULT (Fin 2)) (Fin 2))))
           (Math_ceil (jdiv (Fin (of_nat (length ifs))) (Math_floor (jdiv w (Fin 8)))))"
    and "\<not> (jgt (jmul (Math_ceil (jdiv (Fin (of_nat (length ifs)))
                  (Math_floor (jdiv (jsub h PORT_Y_OFFSET)
                     (jadd (jmul PORT_RADIUS_DEFAULT (Fin 2)) (Fin 2))))))
                (jadd (jmul PORT_RADIUS_DEFAULT (Fin 2)) PORT_SPACING_MIN)) w
            \<and> jlt zoom (Fin (3 / 2)))"
  using assms unfolding calculatePortLayout_def Let_def
  by (auto split: if_splits prod.splits)

text \<open>
  C6. For every input, numbers that are infinite or NaN included, \<open>calculatePortLayout\<close>
  returns one of its three variants: hidden, grouped (with the groups of the
  interfaces), or individual (with the positions computed for the chosen rows, ports per
  row, spacing and radius, the radius being the default or the minimum one). No branch
  raises. It is hidden exactly when the zoom is below 0.5, and grouped only when the
  zoom is below 1.5.
\<close>

theorem calculatePortLayout_total:
  "(calculatePortLayout g w h ifs zoom rw = Hidden
    \<or> calculatePortLayout g w h ifs zoom rw = Grouped (g ifs)
    \<or> (\<exists>rows perRow radius spacing.
          calculatePortLayout g w h ifs zoom rw =
            Individual rows perRow radius spacing
              (calculatePositions ifs rows perRow spacing radius)
          \<and> (radius = PORT_RADIUS_DEFAULT \<or> radius = PORT_RADIUS_MIN)))
   \<and> (calculatePortLayout g w h ifs zoom rw = Hidden \<longleftrightarrow> jlt zoom (Fin (1 / 2)))
   \<and> (calculatePortLayout g w h ifs zoom rw = Grouped (g ifs) \<longrightarrow> jlt zoom (Fin (3 / 2)))"
  unfolding calculatePortLayout_def Let_def
  by (simp split: prod.splits)

theorem calculatePortLayout_total_witness:
  "calculatePortLayout length (Fin 186) (Fin 22) (replicate 48 ()) (Fin (3 / 10)) W19 = Hidden
   \<and> jlt (Fin (3 / 10)) (Fin (1 / 2))
   \<and> calculatePortLayout length (Fin 82) (Fin 22) (replicate 48 ()) (Fin (6 / 5)) W10
       = Grouped (length (replicate 48 ()))
   \<and> jlt (Fin (6 / 5)) (Fin (3 / 2))"
proof -
  have g: "calculatePortLayout length (Fin 82) (Fin 22) (replicate 48 ()) (Fin (6 / 5)) W10
       = Grouped (length (replicate 48 ()))"
    by (simp add: calculatePortLayout_def jsub_def jgt_def PORT_Y_OFFSET_def
        PORT_RADIUS_DEFAULT_def PORT_SPACING_MIN_def double_eval)
  from calculatePortLayout_total
    [of length "Fin 186" "Fin 22" "replicate 48 ()" "Fin (3 / 10)" W19]
  have h: "calculatePortLayout length (Fin 186) (Fin 22) (replicate 48 ()) (Fin (3 / 10)) W19
       = Hidden \<and> jlt (Fin (3 / 10)) (Fin (1 / 2))"
    by simp
  from calculatePortLayout_total
    [of length "Fin 82" "Fin 22" "replicate 48 ()" "Fin (6 / 5)" W10] g
  have "jlt (Fin (6 / 5)) (Fin (3 / 2))" by simp
  with g h show ?thesis by blast
qed

text \<open>
  C3. The layout for a 48-port device, 186 pixels wide, at zoom 1.2. For a device one
  unit (22 pixels) high the algorithm finds room for one row only and returns the
  grouped variant. For no device height at all does it return two rows of 24: with two
  rows the required width is \<open>24 \<times> 8 = 192 > 186\<close>, which groups at any zoom below 1.5.
\<close>

theorem calculatePortLayout_48_ports:
  "calculatePortLayout g (Fin 186) (Fin 22) (replicate 48 i) (Fin (6 / 5)) W19
     = Grouped (g (replicate 48 i))
   \<and> (\<forall>h radius spacing ps.
         calculatePortLayout g (Fin 186) h (replicate 48 i) (Fin (6 / 5)) W19
           \<noteq> Individual (Fin 2) (Fin 24) radius spacing ps)"
proof (intro conjI allI)
  show "calculatePortLayout g (Fin 186) (Fin 22) (replicate 48 i) (Fin (6 / 5)) W19
     = Grouped (g (replicate 48 i))"
    by (simp add: calculatePortLayout_def jsub_def jgt_def PORT_Y_OFFSET_def
        PORT_RADIUS_DEFAULT_def PORT_SPACING_MIN_def double_eval)
next
  fix h radius spacing ps
  show "calculatePortLayout g (Fin 186) h (replicate 48 i) (Fin (6 / 5)) W19
           \<noteq> Individual (Fin 2) (Fin 24) radius spacing ps"
  proof
    assume a: "calculatePortLayout g (Fin 186) h (replicate 48 i) (Fin (6 / 5)) W19
           = Individual (Fin 2) (Fin 24) radius spacing ps"
    define maxRows where
      "maxRows = Math_floor (jdiv (jsub h PORT_Y_OFFSET)
                   (jadd (jmul PORT_RADIUS_DEFAULT (Fin 2)) (Fin 2)))"
    have pc: "Fin (of_nat (length (replicate 48 i))) = Fin 48" by simp
    from calculatePortLayout_individual(1) [OF a]
    have "Math_min maxRows (Fin 3) = Fin 2"
      unfolding pc optimal_rows_48 maxRows_def by simp
    then have m: "maxRows = Fin 2" by (rule Math_min_3_eq_2)
    have "jadd (jmul PORT_RADIUS_DEFAULT (Fin 2)) PORT_SPACING_MIN = Fin 8"
      by (simp add: PORT_RADIUS_DEFAULT_def PORT_SPACING_MIN_def double_eval)
    with calculatePortLayout_individual(2) [OF a] required_width_24
    show False
      unfolding pc maxRows_def [symmetric] m by simp
  qed
qed

section \<open>Properties of the placement validator\<close>

lemma rangesIntersect_sets:
  "rangesIntersect a b \<longleftrightarrow> {fst a..snd a} \<inter> {fst b..snd b} \<noteq> {}"
  by (auto simp: rangesIntersect_def Int_atLeastAtMost)

lemma validatePlacement_Ok_iff:
  "validatePlacement placements c = Ok \<longleftrightarrow> (\<forall>e \<in> set placements. \<not> collides c e)"
proof -
  have "validatePlacement placements c = Ok \<longleftrightarrow> filter (collides c) placements = []"
    by (cases "filter (collides c) placements") (simp_all add: validatePlacement_def)
  then show ?thesis by (simp add: filter_empty_conv)
qed

lemma validatePlacement_Conflict:
  "validatePlacement placements c = Conflict ids
     \<longleftrightarrow> ids \<noteq> [] \<and> ids = map p_id (filter (collides c) placements)"
  by (cases "filter (collides c) placements") (auto simp: validatePlacement_def)

text \<open>
  C1. \<open>validatePlacement\<close> answers with a conflict exactly when some existing placement's
  occupied unit range meets the candidate's and their face-occupancy sets meet, and the
  conflict then lists the ids of exactly those placements. A full-depth placement
  occupies both faces, a half-depth one its own face. In particular a half-depth
  candidate on one face is accepted against a half-depth placement on the opposite
  face, wherever the two are; a full-depth candidate whose range meets that of a
  half-depth placement is rejected, whatever their faces.
\<close>

theorem validatePlacement_conflict_iff:
  "(validatePlacement placements c \<noteq> Ok \<longleftrightarrow>
      (\<exists>e \<in> set placements.
         {fst (occupiedRange c)..snd (occupiedRange c)}
           \<inter> {fst (occupiedRange e)..snd (occupiedRange e)} \<noteq> {}
         \<and> faceOccupancy c \<inter> faceOccupancy e \<noteq> {}))
   \<and> (\<forall>ids. validatePlacement placements c = Conflict ids \<longrightarrow>
         ids = map p_id (filter (\<lambda>e.
           {fst (occupiedRange c)..snd (occupiedRange c)}
             \<inter> {fst (occupiedRange e)..snd (occupiedRange e)} \<noteq> {}
           \<and> faceOccupancy c \<inter> faceOccupancy e \<noteq> {}) placements))
   \<and> (\<not> p_full_depth c \<and> \<not> p_full_depth e
        \<and> ((p_face c = Front \<and> p_face e = Rear) \<or> (p_face c = Rear \<and> p_face e = Front))
        \<longrightarrow> validatePlacement [e] c = Ok)
   \<and> (p_full_depth c \<and> \<not> p_full_depth e
        \<and> {fst (occupiedRange c)..snd (occupiedRange c)}
             \<inter> {fst (occupiedRange e)..snd (occupiedRange e)} \<noteq> {}
        \<longrightarrow> validatePlacement [e] c = Conflict [p_id e])"
proof (intro conjI allI impI)
  show "validatePlacement placements c \<noteq> Ok \<longleftrightarrow>
      (\<exists>e \<in> set placements.
         {fst (occupiedRange c)..snd (occupiedRange c)}
           \<inter> {fst (occupiedRange e)..snd (occupiedRange e)} \<noteq> {}
         \<and> faceOccupancy c \<inter> faceOccupancy e \<noteq> {})"
    unfolding validatePlacement_Ok_iff collides_def rangesIntersect_sets by blast
next
  fix ids
  assume "validatePlacement placements c = Conflict ids"
  then have "ids = map p_id (filter (collides c) placements)"
    by (simp add: validatePlacement_Conflict)
  then show "ids = map p_id (filter (\<lambda>e.
           {fst (occupiedRange c)..snd (occupiedRange c)}
             \<inter> {fst (occupiedRange e)..snd (occupiedRange e)} \<noteq> {}
           \<and> faceOccupancy c \<inter> faceOccupancy e \<noteq> {}) placements)"
    unfolding collides_def rangesIntersect_sets by simp
next
  assume "\<not> p_full_depth c \<and> \<not> p_full_depth e
        \<and> ((p_face c = Front \<and> p_face e = Rear) \<or> (p_face c = Rear \<and> p_face e = Front))"
  then have "faceOccupancy c \<inter> faceOccupancy e = {}"
    by (auto simp: faceOccupancy_def)
  then show "validatePlacement [e] c = Ok"
    by (simp add: validatePlacement_def collides_def)
next
  assume a: "p_full_depth c \<and> \<not> p_full_depth e
        \<and> {fst (occupiedRange c)..snd (occupiedRange c)}
             \<inter> {fst (occupiedRange e)..snd (occupiedRange e)} \<noteq> {}"
  then have "faceOccupancy c \<inter> faceOccupancy e \<noteq> {}"
    by (cases "p_face e") (auto simp: faceOccupancy_def)
  with a have "collides c e"
    by (simp add: collides_def rangesIntersect_sets)
  then show "validatePlacement [e] c = Conflict [p_id e]"
    by (simp add: validatePlacement_def)
qed

theorem validatePlacement_conflict_iff_witness:
  "validatePlacement [frontFull2U] frontHalf1U = Conflict [''first'']
   \<and> validatePlacement [rearHalf1U] frontHalf1U = Ok
   \<and> validatePlacement [rearHalf1U] frontFull2U = Conflict [''second'']
   \<and> (\<exists>e \<in> set [frontFull2U].
         {fst (occupiedRange frontHalf1U)..snd (occupiedRange frontHalf1U)}
           \<inter> {fst (occupiedRange e)..snd (occupiedRange e)} \<noteq> {}
         \<and> faceOccupancy frontHalf1U \<inter> faceOccupancy e \<noteq> {})
   \<and> [''first''] = map p_id (filter (\<lambda>e.
         {fst (occupiedRange frontHalf1U)..snd (occupiedRange frontHalf1U)}
           \<inter> {fst (occupiedRange e)..snd (occupiedRange e)} \<noteq> {}
         \<and> faceOccupancy frontHalf1U \<inter> faceOccupancy e \<noteq> {}) [frontFull2U])"
proof -
  have 1: "validatePlacement [frontFull2U] frontHalf1U = Conflict [''first'']"
    by (simp add: validatePlacement_def collides_def rangesIntersect_def occupiedRange_def
        faceOccupancy_def frontFull2U_def frontHalf1U_def)
  have 2: "validatePlacement [rearHalf1U] frontHalf1U = Ok"
    using validatePlacement_conflict_iff [of "[]" frontHalf1U rearHalf1U]
    by (simp add: frontHalf1U_def rearHalf1U_def)
  have r: "{fst (occupiedRange frontFull2U)..snd (occupiedRange frontFull2U)}
             \<inter> {fst (occupiedRange rearHalf1U)..snd (occupiedRange rearHalf1U)} \<noteq> {}"
    by (simp add: occupiedRange_def frontFull2U_def rearHalf1U_def Int_atLeastAtMost)
  have 3: "validatePlacement [rearHalf1U] frontFull2U = Conflict [''second'']"
    using validatePlacement_conflict_iff [of "[]" frontFull2U rearHalf1U] r
    by (simp add: frontFull2U_def rearHalf1U_def)
  have 4: "\<exists>e \<in> set [frontFull2U].
         {fst (occupiedRange frontHalf1U)..snd (occupiedRange frontHalf1U)}
           \<inter> {fst (occupiedRange e)..snd (occupiedRange e)} \<noteq> {}
         \<and> faceOccupancy frontHalf1U \<inter> faceOccupancy e \<noteq> {}"
    using validatePlacement_conflict_iff [of "[frontFull2U]" frontHalf1U] 1 by simp
  have 5: "[''first''] = map p_id (filter (\<lambda>e.
         {fst (occupiedRange frontHalf1U)..snd (occupiedRange frontHalf1U)}
           \<inter> {fst (occupiedRange e)..snd (occupiedRange e)} \<noteq> {}
         \<and> faceOccupancy frontHalf1U \<inter> faceOccupancy e \<noteq> {}) [frontFull2U])"
    using validatePlacement_conflict_iff [of "[frontFull2U]" frontHalf1U,
        THEN conjunct2, THEN conjunct1, rule_format, OF 1] .
  from 1 2 3 4 5 show ?thesis by blast
qed

section \<open>Properties of the text fitter\<close>

lemma searchFontSize_range:
  "lo \<le> fontSize \<Longrightarrow>
     lo \<le> searchFontSize t avail lo fontSize \<and> searchFontSize t avail lo fontSize \<le> fontSize"
proof (induction t avail lo fontSize rule: searchFontSize.induct)
  case (1 t avail lo fontSize)
  show ?case
  proof (cases "estimateWidth t fontSize \<le> avail")
    case True
    with "1.prems" show ?thesis by (simp add: searchFontSize.simps)
  next
    case False
    show ?thesis
    proof (cases "fontSize - 1 < lo")
      case True
      with False "1.prems" show ?thesis by (simp add: searchFontSize.simps)
    next
      case stepdown: False
      then have "lo \<le> fontSize - 1" by simp
      with "1.IH" [OF False stepdown]
      have "lo \<le> searchFontSize t avail lo (fontSize - 1)
            \<and> searchFontSize t avail lo (fontSize - 1) \<le> fontSize - 1"
        by simp
      with False stepdown show ?thesis
        by (subst (1 2) searchFontSize.simps) simp
    qed
  qed
qed

text \<open>
  C4. Whenever \<open>minFontSize \<le> maxFontSize\<close>, the font size that \<open>fitTextToWidth\<close>
  returns lies between the two; and whenever \<open>availableWidth \<le> 0\<close>, it returns the bare
  ellipsis at \<open>minFontSize\<close>.
\<close>

theorem fitTextToWidth_font_range:
  "(minFontSize opts \<le> maxFontSize opts \<longrightarrow>
      minFontSize opts \<le> snd (fitTextToWidth t opts)
      \<and> snd (fitTextToWidth t opts) \<le> maxFontSize opts)
   \<and> (availableWidth opts \<le> 0 \<longrightarrow>
        fitTextToWidth t opts = ([ELLIPSIS], minFontSize opts))"
proof (intro conjI impI)
  assume le: "minFontSize opts \<le> maxFontSize opts"
  from searchFontSize_range [OF le, of t "availableWidth opts"]
  have "minFontSize opts \<le> calculateFontSize t opts
        \<and> calculateFontSize t opts \<le> maxFontSize opts"
    by (simp add: calculateFontSize_def)
  with le show "minFontSize opts \<le> snd (fitTextToWidth t opts)"
    and "snd (fitTextToWidth t opts) \<le> maxFontSize opts"
    by (simp_all add: fitTextToWidth_def Let_def)
next
  assume "availableWidth opts \<le> 0"
  then show "fitTextToWidth t opts = ([ELLIPSIS], minFontSize opts)"
    by (simp add: fitTextToWidth_def)
qed

theorem fitTextToWidth_font_range_witness:
  "(9::rat) \<le> 13
   \<and> snd (fitTextToWidth [83, 101, 114, 118, 101, 114]
             \<lparr>maxFontSize = 13, minFontSize = 9, availableWidth = 150\<rparr>) \<in> {9..13}
   \<and> fitTextToWidth [83, 101, 114, 118, 101, 114]
        \<lparr>maxFontSize = 13, minFontSize = 9, availableWidth = 0\<rparr> = ([ELLIPSIS], 9)"
  using fitTextToWidth_font_range [of "\<lparr>maxFontSize = 13, minFontSize = 9, availableWidth = 150\<rparr>"
      "[83, 101, 114, 118, 101, 114]"]
    fitTextToWidth_font_range [of "\<lparr>maxFontSize = 13, minFontSize = 9, availableWidth = 0\<rparr>"
      "[83, 101, 114, 118, 101, 114]"]
  by simp

lemma fitTextToWidth_scenario:
  "fitTextToWidth [83, 101, 114, 118, 101, 114]
     \<lparr>maxFontSize = 13, minFontSize = 9, availableWidth = 150\<rparr>
   = ([83, 101, 114, 118, 101, 114], 13)"
  by (simp add: fitTextToWidth_def calculateFontSize_def searchFontSize.simps
      estimateWidth_def CHAR_WIDTH_RATIO_def)

section \<open>Properties of the colour utilities\<close>

lemmas parse_defs = parseInt16_def stripSign_def stripPrefix0x_def isWhiteSpace_def
  hexValue_def slice_def

lemma hexValue_range:
  assumes "hexValue c = Some d"
  shows "d < 16" and "\<not> isWhiteSpace c" and "c \<noteq> CHR ''-''" and "c \<noteq> CHR ''+''"
    and "c \<noteq> CHR ''x''" and "c \<noteq> CHR ''X''"
  using assms by (auto simp: hexValue_def isWhiteSpace_def Let_def split: if_splits)

lemma parseInt16_digits:
  assumes a: "hexValue a = Some x" and b: "hexValue b = Some y"
  shows "parseInt16 [a, b] = Fin (of_nat (16 * x + y))"
proof -
  from hexValue_range(1) [OF a] hexValue_range(1) [OF b]
  have "- (2 ^ 53) < int (16 * x + y)" "int (16 * x + y) < 2 ^ 53" by simp_all
  from roundToDouble_of_int(2) [OF this]
  have "toDouble (of_nat (16 * x + y)) = Fin (of_nat (16 * x + y))" by simp
  with hexValue_range(2-4) [OF a] hexValue_range(5,6) [OF b] a b show ?thesis
    by (simp add: parseInt16_def stripSign_def stripPrefix0x_def)
qed

lemma parseInt16_channel:
  assumes "hexValue a \<noteq> None" and "hexValue b \<noteq> None"
  shows "parseInt16 [a, b] = Fin (of_nat (channelValue a b))" and "channelValue a b \<le> 255"
proof -
  from assms obtain x y where x: "hexValue a = Some x" and y: "hexValue b = Some y" by auto
  from parseInt16_digits [OF x y] x y
  show "parseInt16 [a, b] = Fin (of_nat (channelValue a b))"
    by (simp add: channelValue_def digitValue_def)
  from hexValue_range(1) [OF x] hexValue_range(1) [OF y] x y
  show "channelValue a b \<le> 255"
    by (simp add: channelValue_def digitValue_def)
qed

lemma natToString16_byte:
  assumes "n \<le> 255"
  shows "padStart 2 CHR ''0'' (natToString16 n) = hex2 n"
proof (cases "n < 16")
  case True
  then show ?thesis
    by (simp add: padStart_def natToString16.simps hex2_def hexDigit_def)
next
  case False
  with assms have "n div 16 < 16" by simp
  with False show ?thesis
    by (simp add: padStart_def natToString16.simps [of n] natToString16.simps [of "n div 16"]
        hex2_def)
qed

lemma channelHex_round:
  assumes "0 \<le> q" and "q \<le> 255"
  shows "channelHex (Math_round (Fin q)) = hex2 (roundHalfUp q)" and "roundHalfUp q \<le> 255"
proof -
  have lo: "0 \<le> \<lfloor>q + 1 / 2\<rfloor>" using assms(1) by simp
  have "q + 1 / 2 < of_int 256" using assms(2) by simp
  then have "\<lfloor>q + 1 / 2\<rfloor> < 256" by (simp only: floor_less_iff)
  with lo show le: "roundHalfUp q \<le> 255" unfolding roundHalfUp_def by linarith
  have "\<not> rat_of_int \<lfloor>q + 1 / 2\<rfloor> < 0" using lo by simp
  then have "channelHex (Math_round (Fin q))
      = padStart 2 CHR ''0'' (natToString16 (roundHalfUp q))"
    by (simp add: channelHex_def roundHalfUp_def)
  with natToString16_byte [OF le] show "channelHex (Math_round (Fin q)) = hex2 (roundHalfUp q)"
    by simp
qed

lemma percent_factor:
  assumes "0 \<le> p" and "p \<le> 100"
  shows "jdiv (Fin p) (Fin 100) = Fin (roundToDouble (p / 100))"
    and "0 \<le> roundToDouble (p / 100)" and "roundToDouble (p / 100) \<le> 1"
proof -
  have "of_int 0 \<le> p / 100" "p / 100 \<le> of_int 1" using assms by simp_all
  from roundToDouble_between [OF this]
  show "jdiv (Fin p) (Fin 100) = Fin (roundToDouble (p / 100))"
    and "0 \<le> roundToDouble (p / 100)" and "roundToDouble (p / 100) \<le> 1"
    by simp_all
qed

lemma complement_factor:
  assumes "0 \<le> f" and "f \<le> 1"
  shows "jsub (Fin 1) (Fin f) = Fin (roundToDouble (1 - f))"
    and "0 \<le> roundToDouble (1 - f)" and "roundToDouble (1 - f) \<le> 1"
proof -
  have "of_int 0 \<le> 1 - f" "1 - f \<le> of_int 1" using assms by simp_all
  from roundToDouble_between [OF this]
  show "jsub (Fin 1) (Fin f) = Fin (roundToDouble (1 - f))"
    and "0 \<le> roundToDouble (1 - f)" and "roundToDouble (1 - f) \<le> 1"
    by (simp_all add: jsub_def)
qed

lemma scale_channel:
  assumes "0 \<le> f" and "f \<le> 1" and "n \<le> 255"
  shows "jmul (Fin (of_nat n)) (Fin f) = Fin (roundToDouble (of_nat n * f))"
    and "0 \<le> roundToDouble (of_nat n * f)" and "roundToDouble (of_nat n * f) \<le> of_nat n"
proof -
  have "of_nat n * f \<le> (of_nat n :: rat) * 1"
    using assms(1,2) by (intro mult_left_mono) simp_all
  then have "of_int 0 \<le> of_nat n * f" "of_nat n * f \<le> of_int (int n)"
    using assms(1) by simp_all
  from roundToDouble_between [OF this] assms(3)
  show "jmul (Fin (of_nat n)) (Fin f) = Fin (roundToDouble (of_nat n * f))"
    and "0 \<le> roundToDouble (of_nat n * f)" and "roundToDouble (of_nat n * f) \<le> of_nat n"
    by simp_all
qed

lemma darken_channel:
  assumes "0 \<le> p" and "p \<le> 100" and "n \<le> 255"
  shows "channelHex (Math_round (jmul (Fin (of_nat n)) (jsub (Fin 1) (jdiv (Fin p) (Fin 100)))))
           = hex2 (roundHalfUp (roundToDouble (of_nat n * roundToDouble (1 - roundToDouble (p / 100)))))"
    and "roundHalfUp (roundToDouble (of_nat n * roundToDouble (1 - roundToDouble (p / 100)))) \<le> n"
proof -
  note f = percent_factor [OF assms(1,2)]
  note g = complement_factor [OF f(2,3)]
  note s = scale_channel [OF g(2,3) assms(3)]
  have le: "roundToDouble (of_nat n * roundToDouble (1 - roundToDouble (p / 100))) \<le> 255"
    using s(3) assms(3) by simp
  show "channelHex (Math_round (jmul (Fin (of_nat n)) (jsub (Fin 1) (jdiv (Fin p) (Fin 100)))))
           = hex2 (roundHalfUp (roundToDouble (of_nat n * roundToDouble (1 - roundToDouble (p / 100)))))"
    unfolding f(1) g(1) s(1) by (rule channelHex_round(1) [OF s(2) le])
  have "roundToDouble (of_nat n * roundToDouble (1 - roundToDouble (p / 100))) + 1 / 2
          < of_int (int n + 1)"
    using s(3) by simp
  then have "\<lfloor>roundToDouble (of_nat n * roundToDouble (1 - roundToDouble (p / 100))) + 1 / 2\<rfloor>
          < int n + 1"
    by (simp only: floor_less_iff)
  then show "roundHalfUp (roundToDouble (of_nat n * roundToDouble (1 - roundToDouble (p / 100)))) \<le> n"
    unfolding roundHalfUp_def by linarith
qed

lemma lighten_channel:
  assumes "0 \<le> p" and "p \<le> 100" and "n \<le> 255"
  shows "channelHex (Math_round (jadd (Fin (of_nat n))
                       (jmul (jsub (Fin 255) (Fin (of_nat n))) (jdiv (Fin p) (Fin 100)))))
           = hex2 (roundHalfUp (roundToDouble (of_nat n
                     + roundToDouble ((255 - of_nat n) * roundToDouble (p / 100)))))"
    and "n \<le> roundHalfUp (roundToDouble (of_nat n
                     + roundToDouble ((255 - of_nat n) * roundToDouble (p / 100))))"
    and "roundHalfUp (roundToDouble (of_nat n
                     + roundToDouble ((255 - of_nat n) * roundToDouble (p / 100)))) \<le> 255"
proof -
  note f = percent_factor [OF assms(1,2)]
  define k where "k = 255 - n"
  have k: "k \<le> 255" by (simp add: k_def)
  have d: "(255 :: rat) - of_nat n = of_nat k" using assms(3) by (simp add: k_def of_nat_diff)
  from k have "- (2 ^ 53) < int k" "int k < 2 ^ 53" by simp_all
  from roundToDouble_of_int(2) [OF this]
  have sub: "jsub (Fin 255) (Fin (of_nat n)) = Fin (of_nat k)"
    using d by (simp add: jsub_def)
  note s = scale_channel [OF f(2,3) k]
  define y where "y = roundToDouble (of_nat k * roundToDouble (p / 100))"
  have y: "0 \<le> y" "y \<le> of_nat k" using s(2,3) by (simp_all add: y_def)
  have "of_int (int n) \<le> of_nat n + y" "of_nat n + y \<le> of_int 255"
    using y d by simp_all
  note b = roundToDouble_between [OF this]
  have add: "jadd (Fin (of_nat n)) (Fin y) = Fin (roundToDouble (of_nat n + y))"
    and lo: "of_nat n \<le> roundToDouble (of_nat n + y)"
    and hi: "roundToDouble (of_nat n + y) \<le> 255"
    using b by simp_all
  have nn: "0 \<le> roundToDouble (of_nat n + y)" using lo by (rule order_trans [rotated]) simp
  show "channelHex (Math_round (jadd (Fin (of_nat n))
                       (jmul (jsub (Fin 255) (Fin (of_nat n))) (jdiv (Fin p) (Fin 100)))))
           = hex2 (roundHalfUp (roundToDouble (of_nat n
                     + roundToDouble ((255 - of_nat n) * roundToDouble (p / 100)))))"
    unfolding f(1) sub s(1) d y_def [symmetric] add by (rule channelHex_round(1) [OF nn hi])
  show "roundHalfUp (roundToDouble (of_nat n
                     + roundToDouble ((255 - of_nat n) * roundToDouble (p / 100)))) \<le> 255"
    unfolding d y_def [symmetric] by (rule channelHex_round(2) [OF nn hi])
  have "of_int (int n) \<le> roundToDouble (of_nat n + y) + 1 / 2" using lo by simp
  then have "int n \<le> \<lfloor>roundToDouble (of_nat n + y) + 1 / 2\<rfloor>" by (simp only: le_floor_iff)
  then show "n \<le> roundHalfUp (roundToDouble (of_nat n
                     + roundToDouble ((255 - of_nat n) * roundToDouble (p / 100))))"
    unfolding d y_def [symmetric] roundHalfUp_def by linarith
qed

lemma darkenColor_percent_rgb:
  assumes wf: "list_all (\<lambda>c. hexValue c \<noteq> None) [a, b, c, d, e, f]"
    and p: "0 \<le> p" "p \<le> 100"
  shows "darkenColor_percent [CHR ''#'', a, b, c, d, e, f] (Fin p) =
           ''#'' @ hex2 (roundHalfUp (roundToDouble (of_nat (channelValue a b)
                           * roundToDouble (1 - roundToDouble (p / 100)))))
               @ hex2 (roundHalfUp (roundToDouble (of_nat (channelValue c d)
                           * roundToDouble (1 - roundToDouble (p / 100)))))
               @ hex2 (roundHalfUp (roundToDouble (of_nat (channelValue e f)
                           * roundToDouble (1 - roundToDouble (p / 100)))))"
proof -
  from wf have h: "hexValue a \<noteq> None" "hexValue b \<noteq> None" "hexValue c \<noteq> None"
    "hexValue d \<noteq> None" "hexValue e \<noteq> None" "hexValue f \<noteq> None"
    by simp_all
  note ch = parseInt16_channel [OF h(1,2)] parseInt16_channel [OF h(3,4)]
    parseInt16_channel [OF h(5,6)]
  have "darkenColor_percent [CHR ''#'', a, b, c, d, e, f] (Fin p) =
          ''#'' @ channelHex (Math_round (jmul (Fin (of_nat (channelValue a b)))
                                (jsub (Fin 1) (jdiv (Fin p) (Fin 100)))))
              @ channelHex (Math_round (jmul (Fin (of_nat (channelValue c d)))
                                (jsub (Fin 1) (jdiv (Fin p) (Fin 100)))))
              @ channelHex (Math_round (jmul (Fin (of_nat (channelValue e f)))
                                (jsub (Fin 1) (jdiv (Fin p) (Fin 100)))))"
    by (simp add: darkenColor_percent_def slice_def Let_def ch(1,3,5)
        del: Math_round.simps jmul.simps jdiv.simps)
  then show ?thesis
    by (simp only: darken_channel(1) [OF p ch(2)] darken_channel(1) [OF p ch(4)]
        darken_channel(1) [OF p ch(6)])
qed

lemma lightenColor_percent_rgb:
  assumes wf: "list_all (\<lambda>c. hexValue c \<noteq> None) [a, b, c, d, e, f]"
    and p: "0 \<le> p" "p \<le> 100"
  shows "lightenColor_percent [CHR ''#'', a, b, c, d, e, f] (Fin p) =
           ''#'' @ hex2 (roundHalfUp (roundToDouble (of_nat (channelValue a b)
                     + roundToDouble ((255 - of_nat (channelValue a b)) * roundToDouble (p / 100)))))
               @ hex2 (roundHalfUp (roundToDouble (of_nat (channelValue c d)
                     + roundToDouble ((255 - of_nat (channelValue c d)) * roundToDouble (p / 100)))))
               @ hex2 (roundHalfUp (roundToDouble (of_nat (channelValue e f)
                     + roundToDouble ((255 - of_nat (channelValue e f)) * roundToDouble (p / 100)))))"
proof -
  from wf have h: "hexValue a \<noteq> None" "hexValue b \<noteq> None" "hexValue c \<noteq> None"
    "hexValue d \<noteq> None" "hexValue e \<noteq> None" "hexValue f \<noteq> None"
    by simp_all
  note ch = parseInt16_channel [OF h(1,2)] parseInt16_channel [OF h(3,4)]
    parseInt16_channel [OF h(5,6)]
  have "lightenColor_percent [CHR ''#'', a, b, c, d, e, f] (Fin p) =
          ''#'' @ channelHex (Math_round (jadd (Fin (of_nat (channelValue a b)))
                    (jmul (jsub (Fin 255) (Fin (of_nat (channelValue a b)))) (jdiv (Fin p) (Fin 100)))))
              @ channelHex (Math_round (jadd (Fin (of_nat (channelValue c d)))
                    (jmul (jsub (Fin 255) (Fin (of_nat (channelValue c d)))) (jdiv (Fin p) (Fin 100)))))
              @ channelHex (Math_round (jadd (Fin (of_nat (channelValue e f)))
                    (jmul (jsub (Fin 255) (Fin (of_nat (channelValue e f)))) (jdiv (Fin p) (Fin 100)))))"
    by (simp add: lightenColor_percent_def slice_def Let_def ch(1,3,5)
        del: Math_round.simps jmul.simps jdiv.simps jadd.simps)
  then show ?thesis
    by (simp only: lighten_channel(1) [OF p ch(2)] lighten_channel(1) [OF p ch(4)]
        lighten_channel(1) [OF p ch(6)])
qed

lemma Math_max_Fin: "Math_max (Fin x) (Fin y) = Fin (max x y)"
  by (simp add: Math_max_def max_def)

lemma Math_min_Fin: "Math_min (Fin x) (Fin y) = Fin (min x y)"
  by (simp add: Math_min_def min_def)

lemma unit_channel:
  assumes "n \<le> 255"
  shows "jdiv (Fin (of_nat n)) (Fin 255) = Fin (roundToDouble (of_nat n / 255))"
    and "0 \<le> roundToDouble (of_nat n / 255)" and "roundToDouble (of_nat n / 255) \<le> 1"
proof -
  have "of_int 0 \<le> (of_nat n :: rat) / 255" "(of_nat n :: rat) / 255 \<le> of_int 1"
    using assms by simp_all
  from roundToDouble_between [OF this]
  show "jdiv (Fin (of_nat n)) (Fin 255) = Fin (roundToDouble (of_nat n / 255))"
    and "0 \<le> roundToDouble (of_nat n / 255)" and "roundToDouble (of_nat n / 255) \<le> 1"
    by simp_all
qed

lemma lightness_range:
  assumes "0 \<le> mx" and "mx \<le> 1" and "0 \<le> mn" and "mn \<le> 1"
  shows "\<exists>l. jmul (jdiv (jadd (Fin mx) (Fin mn)) (Fin 2)) (Fin 100) = Fin l
           \<and> 0 \<le> l \<and> l \<le> 100 \<and> roundToDouble l = l"
proof -
  have "of_int 0 \<le> mx + mn" "mx + mn \<le> of_int 2" using assms by simp_all
  from roundToDouble_between [OF this]
  have s: "jadd (Fin mx) (Fin mn) = Fin (roundToDouble (mx + mn))"
    "0 \<le> roundToDouble (mx + mn)" "roundToDouble (mx + mn) \<le> 2"
    by simp_all
  have "of_int 0 \<le> roundToDouble (mx + mn) / 2" "roundToDouble (mx + mn) / 2 \<le> of_int 1"
    using s(2,3) by simp_all
  from roundToDouble_between [OF this]
  have h: "jdiv (Fin (roundToDouble (mx + mn))) (Fin 2) = Fin (roundToDouble (roundToDouble (mx + mn) / 2))"
    "0 \<le> roundToDouble (roundToDouble (mx + mn) / 2)"
    "roundToDouble (roundToDouble (mx + mn) / 2) \<le> 1"
    by simp_all
  have "of_int 0 \<le> roundToDouble (roundToDouble (mx + mn) / 2) * 100"
    "roundToDouble (roundToDouble (mx + mn) / 2) * 100 \<le> of_int 100"
    using h(2,3) by simp_all
  from roundToDouble_between [OF this]
  have l: "jmul (Fin (roundToDouble (roundToDouble (mx + mn) / 2))) (Fin 100)
             = Fin (roundToDouble (roundToDouble (roundToDouble (mx + mn) / 2) * 100))"
    "0 \<le> roundToDouble (roundToDouble (roundToDouble (mx + mn) / 2) * 100)"
    "roundToDouble (roundToDouble (roundToDouble (mx + mn) / 2) * 100) \<le> 100"
    by simp_all
  from h(2) have "0 \<le> roundToDouble (roundToDouble (mx + mn) / 2) * 100" by simp
  from roundToDouble_idem [OF this] show ?thesis unfolding s(1) h(1) l(1) using l(2,3) by simp
qed

lemma hexToHsl_lum:
  "lum (hexToHsl hex) =
     jmul (jdiv (jadd
       (Math_max (Math_max (jdiv (parseInt16 (slice 1 3 hex)) (Fin 255))
                           (jdiv (parseInt16 (slice 3 5 hex)) (Fin 255)))
                 (jdiv (parseInt16 (slice 5 7 hex)) (Fin 255)))
       (Math_min (Math_min (jdiv (parseInt16 (slice 1 3 hex)) (Fin 255))
                           (jdiv (parseInt16 (slice 3 5 hex)) (Fin 255)))
                 (jdiv (parseInt16 (slice 5 7 hex)) (Fin 255)))) (Fin 2)) (Fin 100)"
  by (simp only: hexToHsl_def Let_def hsl.sel)

lemma hexToHsl_lightness:
  assumes wf: "list_all (\<lambda>c. hexValue c \<noteq> None) [a, b, c, d, e, f]"
  shows "\<exists>l. lum (hexToHsl [CHR ''#'', a, b, c, d, e, f]) = Fin l
           \<and> 0 \<le> l \<and> l \<le> 100 \<and> roundToDouble l = l"
proof -
  from wf have h: "hexValue a \<noteq> None" "hexValue b \<noteq> None" "hexValue c \<noteq> None"
    "hexValue d \<noteq> None" "hexValue e \<noteq> None" "hexValue f \<noteq> None"
    by simp_all
  note ch = parseInt16_channel [OF h(1,2)] parseInt16_channel [OF h(3,4)]
    parseInt16_channel [OF h(5,6)]
  note r = unit_channel [OF ch(2)]
  note g = unit_channel [OF ch(4)]
  note b = unit_channel [OF ch(6)]
  have sl: "slice 1 3 [CHR ''#'', a, b, c, d, e, f] = [a, b]"
    "slice 3 5 [CHR ''#'', a, b, c, d, e, f] = [c, d]"
    "slice 5 7 [CHR ''#'', a, b, c, d, e, f] = [e, f]"
    by (simp_all add: slice_def)
  define R where "R = roundToDouble (of_nat (channelValue a b) / 255)"
  define G where "G = roundToDouble (of_nat (channelValue c d) / 255)"
  define B where "B = roundToDouble (of_nat (channelValue e f) / 255)"
  have rng: "0 \<le> max (max R G) B" "max (max R G) B \<le> 1"
    "0 \<le> min (min R G) B" "min (min R G) B \<le> 1"
    using r(2,3) g(2,3) b(2,3) by (simp_all add: R_def G_def B_def)
  show ?thesis
    unfolding hexToHsl_lum sl ch(1,3,5) r(1) g(1) b(1) Math_max_Fin Math_min_Fin
      R_def [symmetric] G_def [symmetric] B_def [symmetric]
    by (rule lightness_range [OF rng])
qed

lemma darken_lightness:
  assumes "0 \<le> l" and "l \<le> 100" and "roundToDouble l = l"
    and "0 \<le> amount" and "amount \<le> 1"
  shows "Math_max (Fin 0) (jmul (Fin l) (jsub (Fin 1) (Fin amount)))
           = Fin (max 0 (roundToDouble (l * roundToDouble (1 - amount))))"
    and "max 0 (roundToDouble (l * roundToDouble (1 - amount))) \<le> l"
proof -
  note g = complement_factor [OF assms(4,5)]
  have le: "l * roundToDouble (1 - amount) \<le> l * 1"
    using assms(1) g(3) by (intro mult_left_mono) simp_all
  then have b: "of_int 0 \<le> l * roundToDouble (1 - amount)"
    "l * roundToDouble (1 - amount) \<le> of_int 100"
    using assms(1,2) g(2) by simp_all
  from roundToDouble_between [OF this]
  have m: "jmul (Fin l) (Fin (roundToDouble (1 - amount)))
             = Fin (roundToDouble (l * roundToDouble (1 - amount)))"
    by simp
  show "Math_max (Fin 0) (jmul (Fin l) (jsub (Fin 1) (Fin amount)))
           = Fin (max 0 (roundToDouble (l * roundToDouble (1 - amount))))"
    unfolding g(1) m by (rule Math_max_Fin)
  from le have "l * roundToDouble (1 - amount) \<le> roundToDouble l" by (simp add: assms(3))
  with b(1) have "roundToDouble (l * roundToDouble (1 - amount)) \<le> roundToDouble l"
    by (intro roundToDouble_le_double) simp_all
  with assms(1,3) show "max 0 (roundToDouble (l * roundToDouble (1 - amount))) \<le> l" by simp
qed

lemma lighten_lightness:
  assumes "0 \<le> l" and "l \<le> 100" and "roundToDouble l = l"
    and "0 \<le> amount" and "amount \<le> 1"
  shows "Math_min (Fin 100) (jmul (Fin l) (jadd (Fin 1) (Fin amount)))
           = Fin (min 100 (roundToDouble (l * roundToDouble (1 + amount))))"
    and "l \<le> min 100 (roundToDouble (l * roundToDouble (1 + amount)))"
proof -
  have "of_int 1 \<le> 1 + amount" "1 + amount \<le> of_int 2" using assms(4,5) by simp_all
  from roundToDouble_between [OF this]
  have g: "jadd (Fin 1) (Fin amount) = Fin (roundToDouble (1 + amount))"
    "1 \<le> roundToDouble (1 + amount)" "roundToDouble (1 + amount) \<le> 2"
    by simp_all
  have "l * roundToDouble (1 + amount) \<le> 100 * 2"
    using assms(1,2) g(2,3) by (intro mult_mono) simp_all
  moreover have ge: "l * 1 \<le> l * roundToDouble (1 + amount)"
    using assms(1) g(2) by (intro mult_left_mono) simp_all
  ultimately have "of_int 0 \<le> l * roundToDouble (1 + amount)"
    "l * roundToDouble (1 + amount) \<le> of_int 200"
    using assms(1) by simp_all
  from roundToDouble_between [OF this]
  have m: "jmul (Fin l) (Fin (roundToDouble (1 + amount)))
             = Fin (roundToDouble (l * roundToDouble (1 + amount)))"
    by simp
  show "Math_min (Fin 100) (jmul (Fin l) (jadd (Fin 1) (Fin amount)))
           = Fin (min 100 (roundToDouble (l * roundToDouble (1 + amount))))"
    unfolding g(1) m by (rule Math_min_Fin)
  from ge have "roundToDouble l \<le> l * roundToDouble (1 + amount)" by (simp add: assms(3))
  with assms(1) have "roundToDouble l \<le> roundToDouble (l * roundToDouble (1 + amount))"
    by (rule roundToDouble_ge_double)
  with assms(2,3) show "l \<le> min 100 (roundToDouble (l * roundToDouble (1 + amount)))" by simp
qed

lemma hexDigit_hexValue: "k < 16 \<Longrightarrow> hexValue (hexDigit k) \<noteq> None"
proof -
  assume "k < 16"
  have "list_all (\<lambda>d. hexValue (hexDigit d) \<noteq> None) [0..<16]"
    unfolding upt16 by (simp add: hexDigit_def hexValue_def)
  with \<open>k < 16\<close> show ?thesis by (simp add: list_all_iff)
qed

lemma hex2_digits: "n \<le> 255 \<Longrightarrow> list_all (\<lambda>c. hexValue c \<noteq> None) (hex2 n)"
proof -
  assume "n \<le> 255"
  then have "n div 16 < 16" by simp
  then show ?thesis
    using hexDigit_hexValue [of "n div 16"] hexDigit_hexValue [of "n mod 16"]
    by (simp add: hex2_def)
qed

lemma isHexColour_hex2:
  assumes "r \<le> 255" and "g \<le> 255" and "b \<le> 255"
  shows "isHexColour (''#'' @ hex2 r @ hex2 g @ hex2 b)"
proof -
  have "length (''#'' @ hex2 r @ hex2 g @ hex2 b) = 7" by (simp add: hex2_def)
  moreover have "list_all (\<lambda>c. hexValue c \<noteq> None) (tl (''#'' @ hex2 r @ hex2 g @ hex2 b))"
    using hex2_digits [OF assms(1)] hex2_digits [OF assms(2)] hex2_digits [OF assms(3)]
    by simp
  ultimately show ?thesis by (simp add: isHexColour_def)
qed

lemma isHexColour_cases:
  assumes "isHexColour s"
  obtains a b c d e f where "s = [CHR ''#'', a, b, c, d, e, f]"
    and "list_all (\<lambda>c. hexValue c \<noteq> None) [a, b, c, d, e, f]"
proof -
  from assms have "length s = 7" by (simp add: isHexColour_def)
  then obtain x a b c d e f where s: "s = [x, a, b, c, d, e, f]"
    by (auto simp: eval_nat_numeral length_Suc_conv)
  with assms have "x = CHR ''#''" "list_all (\<lambda>c. hexValue c \<noteq> None) [a, b, c, d, e, f]"
    by (simp_all add: isHexColour_def)
  with s that show ?thesis by simp
qed

lemma jadd_NaN_right: "jadd x NaN = NaN"
  by (cases x) simp_all

lemma jmul_NaN_right: "jmul x NaN = NaN"
  by (cases x) simp_all

lemma jdiv_NaN_right: "jdiv x NaN = NaN"
  by (cases x) simp_all

lemma Math_max_NaN: "Math_max NaN y = NaN" "Math_max x NaN = NaN"
  by (simp_all add: Math_max_def)

lemma Math_min_NaN: "Math_min NaN y = NaN" "Math_min x NaN = NaN"
  by (simp_all add: Math_min_def)

lemma toHex_NaN: "toHex NaN n = ''NaN''"
  by (simp add: toHex_def jadd_NaN_right padStart_def)

lemma hslToHex_NaN: "hslToHex h s NaN = ''#NaNNaNNaN''"
  by (simp add: hslToHex_def Let_def jsub_def jmul_NaN_right toHex_NaN split: prod.splits)

lemma hexToHsl_NaN:
  assumes "parseInt16 (slice 1 3 hex) = NaN \<or> parseInt16 (slice 3 5 hex) = NaN
           \<or> parseInt16 (slice 5 7 hex) = NaN"
  shows "lum (hexToHsl hex) = NaN"
proof -
  define r where "r = jdiv (parseInt16 (slice 1 3 hex)) (Fin 255)"
  define g where "g = jdiv (parseInt16 (slice 3 5 hex)) (Fin 255)"
  define b where "b = jdiv (parseInt16 (slice 5 7 hex)) (Fin 255)"
  from assms have "r = NaN \<or> g = NaN \<or> b = NaN"
    by (auto simp: r_def g_def b_def)
  then have "Math_max (Math_max r g) b = NaN"
    by (auto simp: Math_max_NaN)
  then have "jdiv (jadd (Math_max (Math_max r g) b) (Math_min (Math_min r g) b)) (Fin 2) = NaN"
    by simp
  then show ?thesis
    unfolding hexToHsl_def Let_def r_def [symmetric] g_def [symmetric] b_def [symmetric]
    by simp
qed

text \<open>
  Where the rounding shows. In exact arithmetic \<open>45 \<times> (1 - 30 / 100)\<close> is 31.5, which
  \<open>Math.round\<close> takes to 32; in doubles the factor is just below 0.7 and the product
  just below 31.5, so that \<open>#2d0000\<close> darkened by 30 percent is \<open>#1f0000\<close>. The
  conversion through HSL and back likewise lands one step lower than exact arithmetic
  would on \<open>#327a22\<close> and \<open>#50fa7b\<close>.
\<close>

lemma double_rounding_examples:
  "darkenColor_percent ''#2d0000'' (Fin 30) = ''#1f0000''"
  "darkenColor_amount ''#327a22'' (Fin (1 / 4)) = ''#265b1a''"
  "lightenColor_amount ''#50fa7b'' (Fin (1 / 4)) = ''#a0fcb7''"
proof -
  show "darkenColor_percent ''#2d0000'' (Fin 30) = ''#1f0000''"
    by (simp add: darkenColor_percent_def parse_defs jsub_def channelHex_def
        padStart_def natToString16.simps hexDigit_def double_eval)
  have h1: "hexToHsl ''#327a22'' =
      HSL (Fin (3838295136963491 / 35184372088832)) (Fin (992379725582441 / 17592186044416))
          (Fin (8609822817031831 / 281474976710656))"
    by (simp add: hexToHsl_def parse_defs jsub_def jgt_def jeq_def Math_max_def Math_min_def
        double_eval)
  show "darkenColor_amount ''#327a22'' (Fin (1 / 4)) = ''#265b1a''"
    unfolding darkenColor_amount_def Let_def h1 hsl.sel
    by (simp add: hslToHex_def toHex_def jsub_def Math_max_def padStart_def
        natToString16.simps hexDigit_def double_eval)
  have h2: "hexToHsl ''#50fa7b'' =
      HSL (Fin (2378049619415763 / 17592186044416)) (Fin (830742118764089 / 8796093022208))
          (Fin (4553271682084141 / 70368744177664))"
    by (simp add: hexToHsl_def parse_defs jsub_def jgt_def jeq_def Math_max_def Math_min_def
        double_eval)
  show "lightenColor_amount ''#50fa7b'' (Fin (1 / 4)) = ''#a0fcb7''"
    unfolding lightenColor_amount_def Let_def h2 hsl.sel
    by (simp add: hslToHex_def toHex_def jsub_def Math_min_def padStart_def
        natToString16.simps hexDigit_def double_eval)
qed

text \<open>
  C8, as the code has it. The two revisions shade differently, and both compute in
  doubles; \<open>roundToDouble\<close> marks every rounding below. For a well-formed colour:

  \<^item> The lightness that \<open>hexToHsl\<close> finds is a finite number \<open>l\<close> between 0 and 100.
    For an amount between 0 and 1 the first revision's \<open>darkenColor\<close> converts back
    from the same hue and saturation and the lightness \<open>l \<times> (1 - amount)\<close> clamped below
    at 0, its \<open>lightenColor\<close> from \<open>l \<times> (1 + amount)\<close> clamped above at 100; the
    darkened lightness is at most \<open>l\<close>, the lightened one at least \<open>l\<close>.

  \<^item> For a percentage between 0 and 100 the second revision's functions of the same
    names (the ones \<open>renderRack\<close> calls) do not go through HSL: darkening prints each
    channel \<open>v\<close> as the rounded \<open>v \<times> (1 - percent / 100)\<close>, which is at most \<open>v\<close>;
    lightening prints it as the rounded \<open>v + (255 - v) \<times> (percent / 100)\<close>, which is
    at least \<open>v\<close> and at most 255.
\<close>

theorem shading_by_revision:
  "list_all (\<lambda>c. hexValue c \<noteq> None) [a, b, c, d, e, f] \<longrightarrow>
     (\<exists>l. lum (hexToHsl [CHR ''#'', a, b, c, d, e, f]) = Fin l \<and> 0 \<le> l \<and> l \<le> 100
        \<and> (0 \<le> amount \<and> amount \<le> 1 \<longrightarrow>
             darkenColor_amount [CHR ''#'', a, b, c, d, e, f] (Fin amount) =
               hslToHex (hue (hexToHsl [CHR ''#'', a, b, c, d, e, f]))
                 (sat (hexToHsl [CHR ''#'', a, b, c, d, e, f]))
                 (Fin (max 0 (roundToDouble (l * roundToDouble (1 - amount)))))
             \<and> max 0 (roundToDouble (l * roundToDouble (1 - amount))) \<le> l
             \<and> lightenColor_amount [CHR ''#'', a, b, c, d, e, f] (Fin amount) =
               hslToHex (hue (hexToHsl [CHR ''#'', a, b, c, d, e, f]))
                 (sat (hexToHsl [CHR ''#'', a, b, c, d, e, f]))
                 (Fin (min 100 (roundToDouble (l * roundToDouble (1 + amount)))))
             \<and> l \<le> min 100 (roundToDouble (l * roundToDouble (1 + amount)))))
     \<and> (0 \<le> p \<and> p \<le> 100 \<longrightarrow>
          darkenColor_percent [CHR ''#'', a, b, c, d, e, f] (Fin p) =
            ''#'' @ hex2 (roundHalfUp (roundToDouble (of_nat (channelValue a b)
                            * roundToDouble (1 - roundToDouble (p / 100)))))
                @ hex2 (roundHalfUp (roundToDouble (of_nat (channelValue c d)
                            * roundToDouble (1 - roundToDouble (p / 100)))))
                @ hex2 (roundHalfUp (roundToDouble (of_nat (channelValue e f)
                            * roundToDouble (1 - roundToDouble (p / 100)))))
          \<and> lightenColor_percent [CHR ''#'', a, b, c, d, e, f] (Fin p) =
            ''#'' @ hex2 (roundHalfUp (roundToDouble (of_nat (channelValue a b)
                      + roundToDouble ((255 - of_nat (channelValue a b)) * roundToDouble (p / 100)))))
                @ hex2 (roundHalfUp (roundToDouble (of_nat (channelValue c d)
                      + roundToDouble ((255 - of_nat (channelValue c d)) * roundToDouble (p / 100)))))
                @ hex2 (roundHalfUp (roundToDouble (of_nat (channelValue e f)
                      + roundToDouble ((255 - of_nat (channelValue e f)) * roundToDouble (p / 100)))))
          \<and> (\<forall>v \<le> 255.
                roundHalfUp (roundToDouble (of_nat v * roundToDouble (1 - roundToDouble (p / 100)))) \<le> v
                \<and> v \<le> roundHalfUp (roundToDouble (of_nat v
                            + roundToDouble ((255 - of_nat v) * roundToDouble (p / 100))))
                \<and> roundHalfUp (roundToDouble (of_nat v
                        + roundToDouble ((255 - of_nat v) * roundToDouble (p / 100)))) \<le> 255))"
proof (intro impI conjI)
  assume wf: "list_all (\<lambda>c. hexValue c \<noteq> None) [a, b, c, d, e, f]"
  from hexToHsl_lightness [OF wf] obtain l
    where l: "lum (hexToHsl [CHR ''#'', a, b, c, d, e, f]) = Fin l" "0 \<le> l" "l \<le> 100"
      "roundToDouble l = l"
    by blast
  have "0 \<le> amount \<and> amount \<le> 1 \<longrightarrow>
          darkenColor_amount [CHR ''#'', a, b, c, d, e, f] (Fin amount) =
            hslToHex (hue (hexToHsl [CHR ''#'', a, b, c, d, e, f]))
              (sat (hexToHsl [CHR ''#'', a, b, c, d, e, f]))
              (Fin (max 0 (roundToDouble (l * roundToDouble (1 - amount)))))
          \<and> max 0 (roundToDouble (l * roundToDouble (1 - amount))) \<le> l
          \<and> lightenColor_amount [CHR ''#'', a, b, c, d, e, f] (Fin amount) =
            hslToHex (hue (hexToHsl [CHR ''#'', a, b, c, d, e, f]))
              (sat (hexToHsl [CHR ''#'', a, b, c, d, e, f]))
              (Fin (min 100 (roundToDouble (l * roundToDouble (1 + amount)))))
          \<and> l \<le> min 100 (roundToDouble (l * roundToDouble (1 + amount)))"
  proof (intro impI conjI)
    assume "0 \<le> amount \<and> amount \<le> 1"
    then have am: "0 \<le> amount" "amount \<le> 1" by simp_all
    note dk = darken_lightness [OF l(2,3,4) am]
    note lt = lighten_lightness [OF l(2,3,4) am]
    show "darkenColor_amount [CHR ''#'', a, b, c, d, e, f] (Fin amount) =
            hslToHex (hue (hexToHsl [CHR ''#'', a, b, c, d, e, f]))
              (sat (hexToHsl [CHR ''#'', a, b, c, d, e, f]))
              (Fin (max 0 (roundToDouble (l * roundToDouble (1 - amount)))))"
      by (simp only: darkenColor_amount_def Let_def l(1) dk(1))
    show "lightenColor_amount [CHR ''#'', a, b, c, d, e, f] (Fin amount) =
            hslToHex (hue (hexToHsl [CHR ''#'', a, b, c, d, e, f]))
              (sat (hexToHsl [CHR ''#'', a, b, c, d, e, f]))
              (Fin (min 100 (roundToDouble (l * roundToDouble (1 + amount)))))"
      by (simp only: lightenColor_amount_def Let_def l(1) lt(1))
    show "max 0 (roundToDouble (l * roundToDouble (1 - amount))) \<le> l" by (rule dk(2))
    show "l \<le> min 100 (roundToDouble (l * roundToDouble (1 + amount)))" by (rule lt(2))
  qed
  with l(1,2,3) show "\<exists>l. lum (hexToHsl [CHR ''#'', a, b, c, d, e, f]) = Fin l \<and> 0 \<le> l \<and> l \<le> 100
        \<and> (0 \<le> amount \<and> amount \<le> 1 \<longrightarrow>
             darkenColor_amount [CHR ''#'', a, b, c, d, e, f] (Fin amount) =
               hslToHex (hue (hexToHsl [CHR ''#'', a, b, c, d, e, f]))
                 (sat (hexToHsl [CHR ''#'', a, b, c, d, e, f]))
                 (Fin (max 0 (roundToDouble (l * roundToDouble (1 - amount)))))
             \<and> max 0 (roundToDouble (l * roundToDouble (1 - amount))) \<le> l
             \<and> lightenColor_amount [CHR ''#'', a, b, c, d, e, f] (Fin amount) =
               hslToHex (hue (hexToHsl [CHR ''#'', a, b, c, d, e, f]))
                 (sat (hexToHsl [CHR ''#'', a, b, c, d, e, f]))
                 (Fin (min 100 (roundToDouble (l * roundToDouble (1 + amount)))))
             \<and> l \<le> min 100 (roundToDouble (l * roundToDouble (1 + amount))))"
    by blast
next
  assume wf: "list_all (\<lambda>c. hexValue c \<noteq> None) [a, b, c, d, e, f]"
    and "0 \<le> p \<and> p \<le> 100"
  then have p: "0 \<le> p" "p \<le> 100" by simp_all
  show "darkenColor_percent [CHR ''#'', a, b, c, d, e, f] (Fin p) =
            ''#'' @ hex2 (roundHalfUp (roundToDouble (of_nat (channelValue a b)
                            * roundToDouble (1 - roundToDouble (p / 100)))))
                @ hex2 (roundHalfUp (roundToDouble (of_nat (channelValue c d)
                            * roundToDouble (1 - roundToDouble (p / 100)))))
                @ hex2 (roundHalfUp (roundToDouble (of_nat (channelValue e f)
                            * roundToDouble (1 - roundToDouble (p / 100)))))"
    by (rule darkenColor_percent_rgb [OF wf p])
  show "lightenColor_percent [CHR ''#'', a, b, c, d, e, f] (Fin p) =
            ''#'' @ hex2 (roundHalfUp (roundToDouble (of_nat (channelValue a b)
                      + roundToDouble ((255 - of_nat (channelValue a b)) * roundToDouble (p / 100)))))
                @ hex2 (roundHalfUp (roundToDouble (of_nat (channelValue c d)
                      + roundToDouble ((255 - of_nat (channelValue c d)) * roundToDouble (p / 100)))))
                @ hex2 (roundHalfUp (roundToDouble (of_nat (channelValue e f)
                      + roundToDouble ((255 - of_nat (channelValue e f)) * roundToDouble (p / 100)))))"
    by (rule lightenColor_percent_rgb [OF wf p])
  show "\<forall>v \<le> 255.
                roundHalfUp (roundToDouble (of_nat v * roundToDouble (1 - roundToDouble (p / 100)))) \<le> v
                \<and> v \<le> roundHalfUp (roundToDouble (of_nat v
                            + roundToDouble ((255 - of_nat v) * roundToDouble (p / 100))))
                \<and> roundHalfUp (roundToDouble (of_nat v
                        + roundToDouble ((255 - of_nat v) * roundToDouble (p / 100)))) \<le> 255"
    using darken_channel(2) [OF p] lighten_channel(2,3) [OF p] by blast
qed

theorem shading_by_revision_witness:
  "list_all (\<lambda>c. hexValue c \<noteq> None) ''ff8080''
   \<and> (0::rat) \<le> 1 / 4 \<and> (1 / 4 :: rat) \<le> 1 \<and> (0::rat) \<le> 25 \<and> (25::rat) \<le> 100
   \<and> lum (hexToHsl ''#ff8080'') = Fin (2642277354906403 / 35184372088832)
   \<and> darkenColor_amount ''#ff8080'' (Fin (1 / 4)) = ''#ff2020''
   \<and> lightenColor_amount ''#ff8080'' (Fin (1 / 4)) = ''#ffe0e0''
   \<and> darkenColor_percent ''#ff8080'' (Fin 25) = ''#bf6060''
   \<and> lightenColor_percent ''#ff8080'' (Fin 25) = ''#ffa0a0''
   \<and> (128 :: nat) \<le> 255
   \<and> roundHalfUp (roundToDouble (of_nat 128 * roundToDouble (1 - roundToDouble (25 / 100))))
       \<le> 128"
proof -
  have wf: "list_all (\<lambda>c. hexValue c \<noteq> None) ''ff8080''"
    by (simp add: hexValue_def)
  have am: "(0::rat) \<le> 1 / 4 \<and> (1 / 4 :: rat) \<le> 1" and p: "(0::rat) \<le> 25 \<and> (25::rat) \<le> 100"
    by simp_all
  have h: "hexToHsl ''#ff8080'' = HSL (Fin 0) (Fin 100) (Fin (2642277354906403 / 35184372088832))"
    by (simp add: hexToHsl_def parse_defs jsub_def jgt_def jeq_def Math_max_def Math_min_def
        double_eval)
  have v: "channelValue CHR ''f'' CHR ''f'' = 255" "channelValue CHR ''8'' CHR ''0'' = 128"
    by (simp_all add: channelValue_def digitValue_def hexValue_def)
  note t = shading_by_revision [of "CHR ''f''" "CHR ''f''" "CHR ''8''" "CHR ''0''" "CHR ''8''"
      "CHR ''0''" "1 / 4" 25, THEN mp, OF wf]
  from t am obtain l where l: "lum (hexToHsl ''#ff8080'') = Fin l"
    and dk: "darkenColor_amount ''#ff8080'' (Fin (1 / 4)) =
               hslToHex (hue (hexToHsl ''#ff8080'')) (sat (hexToHsl ''#ff8080''))
                 (Fin (max 0 (roundToDouble (l * roundToDouble (1 - 1 / 4)))))"
    and lt: "lightenColor_amount ''#ff8080'' (Fin (1 / 4)) =
               hslToHex (hue (hexToHsl ''#ff8080'')) (sat (hexToHsl ''#ff8080''))
                 (Fin (min 100 (roundToDouble (l * roundToDouble (1 + 1 / 4)))))"
    by blast
  from l have l0: "l = 2642277354906403 / 35184372088832" by (simp add: h)
  have f1: "roundToDouble (1 - 1 / 4) = 3 / 4" "roundToDouble (1 + 1 / 4) = 5 / 4"
    by (simp_all add: double_eval)
  have 1: "darkenColor_amount ''#ff8080'' (Fin (1 / 4)) = ''#ff2020''"
    unfolding dk l0 h hsl.sel f1
    by (simp add: hslToHex_def toHex_def jsub_def padStart_def natToString16.simps hexDigit_def
        double_eval)
  have 2: "lightenColor_amount ''#ff8080'' (Fin (1 / 4)) = ''#ffe0e0''"
    unfolding lt l0 h hsl.sel f1
    by (simp add: hslToHex_def toHex_def jsub_def padStart_def natToString16.simps hexDigit_def
        double_eval)
  from t p have 3: "darkenColor_percent ''#ff8080'' (Fin 25) =
            ''#'' @ hex2 (roundHalfUp (roundToDouble (of_nat (channelValue CHR ''f'' CHR ''f'')
                            * roundToDouble (1 - roundToDouble (25 / 100)))))
                @ hex2 (roundHalfUp (roundToDouble (of_nat (channelValue CHR ''8'' CHR ''0'')
                            * roundToDouble (1 - roundToDouble (25 / 100)))))
                @ hex2 (roundHalfUp (roundToDouble (of_nat (channelValue CHR ''8'' CHR ''0'')
                            * roundToDouble (1 - roundToDouble (25 / 100)))))"
    and 4: "lightenColor_percent ''#ff8080'' (Fin 25) =
            ''#'' @ hex2 (roundHalfUp (roundToDouble (of_nat (channelValue CHR ''f'' CHR ''f'')
                      + roundToDouble ((255 - of_nat (channelValue CHR ''f'' CHR ''f''))
                          * roundToDouble (25 / 100)))))
                @ hex2 (roundHalfUp (roundToDouble (of_nat (channelValue CHR ''8'' CHR ''0'')
                      + roundToDouble ((255 - of_nat (channelValue CHR ''8'' CHR ''0''))
                          * roundToDouble (25 / 100)))))
                @ hex2 (roundHalfUp (roundToDouble (of_nat (channelValue CHR ''8'' CHR ''0'')
                      + roundToDouble ((255 - of_nat (channelValue CHR ''8'' CHR ''0''))
                          * roundToDouble (25 / 100)))))"
    by blast+
  have q: "roundToDouble (25 / 100) = 1 / 4" by (simp add: double_eval)
  have 5: "darkenColor_percent ''#ff8080'' (Fin 25) = ''#bf6060''"
    unfolding 3 v q f1 by (simp add: roundHalfUp_def hex2_def hexDigit_def double_eval)
  have 6: "lightenColor_percent ''#ff8080'' (Fin 25) = ''#ffa0a0''"
    unfolding 4 v q by (simp add: roundHalfUp_def hex2_def hexDigit_def double_eval)
  from l l0 have 7: "lum (hexToHsl ''#ff8080'') = Fin (2642277354906403 / 35184372088832)"
    by simp
  have 8: "(128 :: nat) \<le> 255" by simp
  from t p 8
  have 9: "roundHalfUp (roundToDouble (of_nat 128 * roundToDouble (1 - roundToDouble (25 / 100))))
             \<le> 128"
    by blast
  from wf am p 7 1 2 5 6 8 9 show ?thesis by blast
qed

text \<open>
  Darkening \<open>#ff8080\<close> by a quarter: the percent-taking function gives \<open>#bf6060\<close>, the
  conversion through HSL gives \<open>#ff2020\<close> (and black when the fraction is read as 25).
  Lightening it by 15 percent gives \<open>#ff9393\<close> against \<open>#ffb9b9\<close> through HSL, the
  fraction being the double nearest to 0.15.
\<close>

theorem shading_rgb_counterexample:
  "darkenColor_percent ''#ff8080'' (Fin 25) = ''#bf6060''
   \<and> hslToHex (hue (hexToHsl ''#ff8080'')) (sat (hexToHsl ''#ff8080''))
        (Math_max (Fin 0) (jmul (lum (hexToHsl ''#ff8080'')) (jsub (Fin 1) (Fin (25 / 100)))))
       = ''#ff2020''
   \<and> hslToHex (hue (hexToHsl ''#ff8080'')) (sat (hexToHsl ''#ff8080''))
        (Math_max (Fin 0) (jmul (lum (hexToHsl ''#ff8080'')) (jsub (Fin 1) (Fin 25))))
       = ''#000000''
   \<and> lightenColor_percent ''#ff8080'' (Fin 15) = ''#ff9393''
   \<and> hslToHex (hue (hexToHsl ''#ff8080'')) (sat (hexToHsl ''#ff8080''))
        (Math_min (Fin 100)
           (jmul (lum (hexToHsl ''#ff8080'')) (jadd (Fin 1) (toDouble (15 / 100)))))
       = ''#ffb9b9''"
proof -
  have h: "hexToHsl ''#ff8080'' = HSL (Fin 0) (Fin 100) (Fin (2642277354906403 / 35184372088832))"
    by (simp add: hexToHsl_def parse_defs jsub_def jgt_def jeq_def Math_max_def Math_min_def
        double_eval)
  have 1: "darkenColor_percent ''#ff8080'' (Fin 25) = ''#bf6060''"
    by (simp add: darkenColor_percent_def parse_defs jsub_def channelHex_def
        padStart_def natToString16.simps hexDigit_def double_eval)
  have 2: "lightenColor_percent ''#ff8080'' (Fin 15) = ''#ff9393''"
    by (simp add: lightenColor_percent_def parse_defs jsub_def channelHex_def
        padStart_def natToString16.simps hexDigit_def double_eval)
  have 3: "hslToHex (Fin 0) (Fin 100)
        (Math_max (Fin 0) (jmul (Fin (2642277354906403 / 35184372088832))
           (jsub (Fin 1) (Fin (25 / 100))))) = ''#ff2020''"
    by (simp add: hslToHex_def toHex_def jsub_def Math_max_def padStart_def
        natToString16.simps hexDigit_def double_eval)
  have 4: "hslToHex (Fin 0) (Fin 100)
        (Math_max (Fin 0) (jmul (Fin (2642277354906403 / 35184372088832))
           (jsub (Fin 1) (Fin 25)))) = ''#000000''"
    by (simp add: hslToHex_def toHex_def jsub_def Math_max_def padStart_def
        natToString16.simps hexDigit_def double_eval)
  have 5: "hslToHex (Fin 0) (Fin 100)
        (Math_min (Fin 100) (jmul (Fin (2642277354906403 / 35184372088832))
           (jadd (Fin 1) (toDouble (15 / 100))))) = ''#ffb9b9''"
    by (simp add: hslToHex_def toHex_def jsub_def Math_min_def padStart_def
        natToString16.simps hexDigit_def double_eval)
  from 1 2 3 4 5 show ?thesis by (simp only: h hsl.sel)
qed

text \<open>
  C9, as the code has it. Neither revision signals an error on any input. When the red
  channel of the colour does not parse, the percent-taking functions print \<open>NaN\<close> in
  its place; when any channel does not parse, the amount-taking functions return
  \<open>#NaNNaNNaN\<close>. On a well-formed colour and a percentage between 0 and 100 the
  percent-taking functions return a well-formed colour.
\<close>

theorem shading_never_raises:
  "(parseInt16 (slice 0 2 (remove1 CHR ''#'' hex)) = NaN \<longrightarrow>
      take 4 (darkenColor_percent hex percent) = ''#NaN''
      \<and> take 4 (lightenColor_percent hex percent) = ''#NaN'')
   \<and> (parseInt16 (slice 1 3 hex) = NaN \<or> parseInt16 (slice 3 5 hex) = NaN
        \<or> parseInt16 (slice 5 7 hex) = NaN \<longrightarrow>
      darkenColor_amount hex amount = ''#NaNNaNNaN''
      \<and> lightenColor_amount hex amount = ''#NaNNaNNaN'')
   \<and> (isHexColour hex \<and> 0 \<le> p \<and> p \<le> 100 \<longrightarrow>
      isHexColour (darkenColor_percent hex (Fin p))
      \<and> isHexColour (lightenColor_percent hex (Fin p)))"
proof (intro conjI impI)
  assume "parseInt16 (slice 0 2 (remove1 CHR ''#'' hex)) = NaN"
  then show "take 4 (darkenColor_percent hex percent) = ''#NaN''"
    and "take 4 (lightenColor_percent hex percent) = ''#NaN''"
    by (simp_all add: darkenColor_percent_def lightenColor_percent_def Let_def channelHex_def
        padStart_def)
next
  assume "parseInt16 (slice 1 3 hex) = NaN \<or> parseInt16 (slice 3 5 hex) = NaN
        \<or> parseInt16 (slice 5 7 hex) = NaN"
  then have "lum (hexToHsl hex) = NaN" by (rule hexToHsl_NaN)
  then show "darkenColor_amount hex amount = ''#NaNNaNNaN''"
    and "lightenColor_amount hex amount = ''#NaNNaNNaN''"
    by (simp_all add: darkenColor_amount_def lightenColor_amount_def Let_def Math_max_NaN
        Math_min_NaN hslToHex_NaN)
next
  assume a: "isHexColour hex \<and> 0 \<le> p \<and> p \<le> 100"
  then obtain a b c d e f where hex: "hex = [CHR ''#'', a, b, c, d, e, f]"
    and wf: "list_all (\<lambda>c. hexValue c \<noteq> None) [a, b, c, d, e, f]"
    by (auto elim: isHexColour_cases)
  from a have p: "0 \<le> p" "p \<le> 100" by simp_all
  from wf have h: "hexValue a \<noteq> None" "hexValue b \<noteq> None" "hexValue c \<noteq> None"
    "hexValue d \<noteq> None" "hexValue e \<noteq> None" "hexValue f \<noteq> None"
    by simp_all
  note ch = parseInt16_channel(2) [OF h(1,2)] parseInt16_channel(2) [OF h(3,4)]
    parseInt16_channel(2) [OF h(5,6)]
  have dk: "roundHalfUp (roundToDouble (of_nat n * roundToDouble (1 - roundToDouble (p / 100))))
              \<le> 255" if "n \<le> 255" for n
    using darken_channel(2) [OF p that] that by simp
  have lt: "roundHalfUp (roundToDouble (of_nat n
              + roundToDouble ((255 - of_nat n) * roundToDouble (p / 100)))) \<le> 255"
    if "n \<le> 255" for n
    by (rule lighten_channel(3) [OF p that])
  show "isHexColour (darkenColor_percent hex (Fin p))"
    unfolding hex darkenColor_percent_rgb [OF wf p]
    by (intro isHexColour_hex2 dk ch)
  show "isHexColour (lightenColor_percent hex (Fin p))"
    unfolding hex lightenColor_percent_rgb [OF wf p]
    by (intro isHexColour_hex2 lt ch)
qed

theorem shading_never_raises_witness:
  "parseInt16 (slice 0 2 (remove1 CHR ''#'' ''#zzzzzz'')) = NaN
   \<and> take 4 (darkenColor_percent ''#zzzzzz'' (Fin 25)) = ''#NaN''
   \<and> parseInt16 (slice 1 3 ''#zzzzzz'') = NaN
   \<and> darkenColor_amount ''#zzzzzz'' (Fin (1 / 4)) = ''#NaNNaNNaN''
   \<and> isHexColour ''#ff8080'' \<and> (0::rat) \<le> 25 \<and> (25::rat) \<le> 100
   \<and> isHexColour (darkenColor_percent ''#ff8080'' (Fin 25))"
proof -
  have 1: "parseInt16 (slice 0 2 (remove1 CHR ''#'' ''#zzzzzz'')) = NaN"
    and 2: "parseInt16 (slice 1 3 ''#zzzzzz'') = NaN"
    by (simp_all add: parse_defs)
  have 3: "isHexColour ''#ff8080''"
    by (simp add: isHexColour_def hexValue_def)
  from shading_never_raises [of "''#zzzzzz''" "Fin 25" "Fin (1 / 4)" 25] 1 2
  have 4: "take 4 (darkenColor_percent ''#zzzzzz'' (Fin 25)) = ''#NaN''"
    and 5: "darkenColor_amount ''#zzzzzz'' (Fin (1 / 4)) = ''#NaNNaNNaN''"
    by blast+
  from shading_never_raises [of "''#ff8080''" "Fin 25" "Fin (1 / 4)" 25] 3
  have 6: "isHexColour (darkenColor_percent ''#ff8080'' (Fin 25))"
    by simp
  from 1 2 3 4 5 6 show ?thesis by simp
qed

text \<open>
  The colour \<open>#zzzzzz\<close> holds no hex digit. All four functions return the string
  \<open>#NaNNaNNaN\<close> for it; none signals an error.
\<close>

theorem malformed_colour_counterexample:
  "hexValue CHR ''z'' = None
   \<and> darkenColor_percent ''#zzzzzz'' (Fin 25) = ''#NaNNaNNaN''
   \<and> lightenColor_percent ''#zzzzzz'' (Fin 15) = ''#NaNNaNNaN''
   \<and> darkenColor_amount ''#zzzzzz'' (Fin (25 / 100)) = ''#NaNNaNNaN''
   \<and> lightenColor_amount ''#zzzzzz'' (Fin (15 / 100)) = ''#NaNNaNNaN''"
proof -
  have n: "parseInt16 ''zz'' = NaN" by (simp add: parse_defs)
  have 0: "hexValue CHR ''z'' = None" by (simp add: hexValue_def)
  have 1: "darkenColor_percent ''#zzzzzz'' (Fin 25) = ''#NaNNaNNaN''"
    by (simp add: darkenColor_percent_def slice_def n Let_def channelHex_def padStart_def)
  have 2: "lightenColor_percent ''#zzzzzz'' (Fin 15) = ''#NaNNaNNaN''"
    by (simp add: lightenColor_percent_def slice_def n Let_def channelHex_def padStart_def)
  have "parseInt16 (slice 1 3 ''#zzzzzz'') = NaN" by (simp add: slice_def n)
  then have l: "lum (hexToHsl ''#zzzzzz'') = NaN" by (simp add: hexToHsl_NaN)
  have 3: "darkenColor_amount ''#zzzzzz'' (Fin (25 / 100)) = ''#NaNNaNNaN''"
    by (simp add: darkenColor_amount_def Let_def l Math_max_NaN hslToHex_NaN)
  have 4: "lightenColor_amount ''#zzzzzz'' (Fin (15 / 100)) = ''#NaNNaNNaN''"
    by (simp add: lightenColor_amount_def Let_def l Math_min_NaN hslToHex_NaN)
  from 0 1 2 3 4 show ?thesis by simp
qed

end
